(* ===== verification/Prelude.thy ===== *)
theory Prelude
  imports
    Main
    "HOL-Library.DAList"
    "HOL-Library.Multiset"
    "HOL-Library.Word"
    "HOL-Library.Char_ord"
    "HOL-Library.List_Lexorder"
    "HOL-Library.Product_Lexorder"
begin

text \<open>
  What the models of all packages share: Go's maps, its machine integers, its sorting
  functions, the \<open>%d\<close> verb of \<open>fmt\<close>, and the lemma collections that carry the
  component proofs.

  A Go map is a finite association list with distinct keys (the type \<open>alist\<close> of the
  library): lookup, store, delete and \<open>len\<close> have the meaning they have in Go. The order of
  the list is not observable in Go, where a \<open>range\<close> over a map visits the entries in an
  order the runtime chooses. A loop whose result can depend on that order takes the visited
  sequence as an argument \<open>it\<close>, constrained by \<open>ranges it m\<close>; a loop that sorts what
  it collected runs over the entries in the order of the list, and a lemma says that every
  other order gives the same result.

  Go's \<open>int\<close>, \<open>int64\<close> and \<open>time.Duration\<close> are 64-bit two's complement; they are
  modelled by \<open>int\<close> with \<open>wrap64\<close> around every operation that can leave the range.
  \<open>uint64\<close> is \<open>64 word\<close>.
\<close>

section \<open>Collections of facts\<close>

named_theorems gomap_simps \<open>lookup after the operations of a Go map\<close>
named_theorems step_defs \<open>the definitions of the operations of a component\<close>
named_theorems inv_defs \<open>the invariants of the components\<close>

section \<open>Machine integers\<close>

type_synonym u64 = "64 word"
type_synonym byte = "8 word"
type_synonym bytes = "8 word list"

definition wrap64 :: "int \<Rightarrow> int" where
  "wrap64 x = (x + 2 ^ 63) mod 2 ^ 64 - 2 ^ 63"

definition maxInt64 :: int where "maxInt64 = 2 ^ 63 - 1"
definition minInt64 :: int where "minInt64 = - (2 ^ 63)"

definition in_int64 :: "int \<Rightarrow> bool" where
  "in_int64 x \<longleftrightarrow> minInt64 \<le> x \<and> x \<le> maxInt64"

lemma wrap64_id: "in_int64 x \<Longrightarrow> wrap64 x = x"
  by (simp add: wrap64_def in_int64_def minInt64_def maxInt64_def)

lemma wrap64_range: "in_int64 (wrap64 x)"
proof -
  have "0 \<le> (x + 2 ^ 63) mod (2 ^ 64 :: int)" and "(x + 2 ^ 63) mod (2 ^ 64 :: int) < 2 ^ 64"
    by simp_all
  then show ?thesis
    unfolding wrap64_def in_int64_def minInt64_def maxInt64_def by simp
qed

lemma wrap64_small: "\<lbrakk> - (2 ^ 63) \<le> x; x < 2 ^ 63 \<rbrakk> \<Longrightarrow> wrap64 x = x"
  by (rule wrap64_id) (simp add: in_int64_def minInt64_def maxInt64_def)

text \<open>One overflow upwards.\<close>

lemma wrap64_over:
  assumes "maxInt64 < x" and "x \<le> 2 * maxInt64 + 1"
  shows "wrap64 x = x - 2 ^ 64"
proof -
  have "(x + 2 ^ 63) mod 2 ^ 64 = (x + 2 ^ 63 - 2 ^ 64) mod (2 ^ 64 :: int)"
    by (rule minus_mod_self2 [symmetric])
  also have "\<dots> = x + 2 ^ 63 - 2 ^ 64"
    using assms by (intro mod_pos_pos_trivial) (simp_all add: maxInt64_def)
  finally show ?thesis by (simp add: wrap64_def)
qed

section \<open>Maps\<close>

type_synonym ('k, 'v) gomap = "('k, 'v) alist"

abbreviation mempty :: "('k, 'v) gomap" where "mempty \<equiv> DAList.empty"
abbreviation mget :: "('k, 'v) gomap \<Rightarrow> 'k \<Rightarrow> 'v option" where "mget \<equiv> DAList.lookup"
abbreviation mput :: "('k, 'v) gomap \<Rightarrow> 'k \<Rightarrow> 'v \<Rightarrow> ('k, 'v) gomap" where
  "mput m k v \<equiv> DAList.update k v m"
abbreviation mdel :: "('k, 'v) gomap \<Rightarrow> 'k \<Rightarrow> ('k, 'v) gomap" where
  "mdel m k \<equiv> DAList.delete k m"
abbreviation mfilter :: "('k \<times> 'v \<Rightarrow> bool) \<Rightarrow> ('k, 'v) gomap \<Rightarrow> ('k, 'v) gomap" where
  "mfilter \<equiv> DAList.filter"
abbreviation entries :: "('k, 'v) gomap \<Rightarrow> ('k \<times> 'v) list" where
  "entries \<equiv> DAList.impl_of"
abbreviation mvals :: "('k, 'v) gomap \<Rightarrow> 'v list" where "mvals m \<equiv> map snd (entries m)"
abbreviation mkeys :: "('k, 'v) gomap \<Rightarrow> 'k list" where "mkeys m \<equiv> map fst (entries m)"
abbreviation mlen :: "('k, 'v) gomap \<Rightarrow> nat" where "mlen m \<equiv> length (entries m)"

text \<open>\<open>m[k]\<close> in a context that ignores the second result: the zero value where \<open>k\<close> is absent.\<close>

definition mgetd :: "'v \<Rightarrow> ('k, 'v) gomap \<Rightarrow> 'k \<Rightarrow> 'v" where
  "mgetd z m k = (case mget m k of None \<Rightarrow> z | Some v \<Rightarrow> v)"

text \<open>The sequence of entries that one \<open>range\<close> over \<open>m\<close> visits.\<close>

definition ranges :: "('k \<times> 'v) list \<Rightarrow> ('k, 'v) gomap \<Rightarrow> bool" where
  "ranges it m \<longleftrightarrow> mset it = mset (entries m)"

lemma mget_mput [gomap_simps]:
  "mget (mput m k v) k' = (if k' = k then Some v else mget m k')"
  by (auto simp: lookup_update)

lemma mget_mdel [gomap_simps]:
  "mget (mdel m k) k' = (if k' = k then None else mget m k')"
  by simp

lemma mget_conv_map_of: "mget m k = map_of (entries m) k"
  by transfer simp

lemma mem_entries [gomap_simps]: "(k, v) \<in> set (entries m) \<longleftrightarrow> mget m k = Some v"
  by (simp add: mget_conv_map_of)

lemma mget_mfilter [gomap_simps]:
  "mget (mfilter P m) k =
     (case mget m k of None \<Rightarrow> None | Some v \<Rightarrow> if P (k, v) then Some v else None)"
proof -
  have "map_of (filter P xs) k =
      (case map_of xs k of None \<Rightarrow> None | Some v \<Rightarrow> if P (k, v) then Some v else None)"
    if "distinct (map fst xs)" for xs
    using that
    by (induction xs) (auto split: option.splits simp: map_of_eq_None_iff dest: map_of_SomeD)
  then show ?thesis
    by (simp add: mget_conv_map_of DAList.filter.rep_eq)
qed

lemma mgetd_simps [gomap_simps, simp]:
  "mgetd z mempty k = z"
  "mgetd z (mput m k v) k' = (if k' = k then v else mgetd z m k')"
  "mgetd z (mdel m k) k' = (if k' = k then z else mgetd z m k')"
  by (simp_all add: mgetd_def)

lemma mgetd_Some [simp]: "mget m k = Some v \<Longrightarrow> mgetd z m k = v"
  by (simp add: mgetd_def)

lemma mgetd_None [simp]: "mget m k = None \<Longrightarrow> mgetd z m k = z"
  by (simp add: mgetd_def)

lemma entries_mempty [simp]: "entries mempty = []"
  by (rule DAList.empty.rep_eq)

lemma entries_mput: "entries (mput m k v) = AList.update k v (entries m)"
  by (rule DAList.update.rep_eq)

lemma entries_mdel: "entries (mdel m k) = AList.delete k (entries m)"
  by (rule DAList.delete.rep_eq)

lemma entries_mfilter [simp]: "entries (mfilter P m) = filter P (entries m)"
  by (rule DAList.filter.rep_eq)

lemma mget_empty_iff: "mlen m = 0 \<longleftrightarrow> (\<forall>k. mget m k = None)"
proof
  assume "\<forall>k. mget m k = None"
  then have "\<And>k v. (k, v) \<notin> set (entries m)" by (simp add: mem_entries)
  then show "mlen m = 0" by (metis length_0_conv list.set_intros(1) neq_Nil_conv surj_pair)
qed (simp add: mget_conv_map_of)

lemma mkeys_set: "k \<in> set (mkeys m) \<longleftrightarrow> mget m k \<noteq> None"
  by (simp add: mget_conv_map_of map_of_eq_None_iff)

lemma mvals_set: "v \<in> set (mvals m) \<longleftrightarrow> (\<exists>k. mget m k = Some v)"
proof -
  have "v \<in> set (mvals m) \<longleftrightarrow> (\<exists>k. (k, v) \<in> set (entries m))" by force
  then show ?thesis by (simp only: mem_entries)
qed

lemma mlen_mput: "mlen (mput m k v) = (if mget m k = None then Suc (mlen m) else mlen m)"
proof -
  have "mlen (mput m k v) = length (map fst (entries (mput m k v)))" by simp
  also have "\<dots> = length (if k \<in> set (mkeys m) then mkeys m else mkeys m @ [k])"
    by (simp only: entries_mput update_keys)
  finally show ?thesis
    by (metis length_append_singleton length_map mkeys_set)
qed

lemma mlen_mdel: "mlen (mdel m k) = (if mget m k = None then mlen m else mlen m - 1)"
proof (cases "mget m k")
  case None
  then have "k \<notin> set (mkeys m)" by (simp only: mkeys_set) simp
  then have "entries (mdel m k) = entries m"
    by (simp add: entries_mdel)
  with None show ?thesis by simp
next
  case (Some v)
  then have "k \<in> set (mkeys m)" by (simp only: mkeys_set) simp
  moreover have "distinct (mkeys m)" by simp
  ultimately have "length (removeAll k (mkeys m)) = length (mkeys m) - 1"
    by (metis distinct_remove1_removeAll length_remove1)
  then show ?thesis using Some
    by (metis delete_keys entries_mdel length_map option.distinct(1))
qed

lemma entries_mput_new: "mget m k = None \<Longrightarrow> entries (mput m k v) = entries m @ [(k, v)]"
proof -
  have "AList.update k v xs = xs @ [(k, v)]" if "k \<notin> set (map fst xs)" for xs
    using that by (induction xs) auto
  moreover assume "mget m k = None"
  then have "k \<notin> set (mkeys m)" by (simp only: mkeys_set) simp
  ultimately show ?thesis by (simp only: entries_mput)
qed

lemma mdel_absent: "mget m k = None \<Longrightarrow> mdel m k = m"
proof -
  assume "mget m k = None"
  then have "k \<notin> set (mkeys m)" by (simp only: mkeys_set) simp
  then have "entries (mdel m k) = entries m" by (simp add: entries_mdel)
  then show ?thesis by (simp only: DAList.impl_of_inject)
qed

lemma mdel_mput_new: "mget m k = None \<Longrightarrow> mdel (mput m k v) k = m"
proof -
  assume n: "mget m k = None"
  then have "k \<notin> set (mkeys m)" by (simp only: mkeys_set) simp
  then have "AList.delete k (entries m) = entries m" by simp
  then have "entries (mdel (mput m k v) k) = entries m"
    by (simp add: entries_mdel entries_mput_new [OF n] AList.delete_eq)
  then show ?thesis by (simp only: DAList.impl_of_inject)
qed

lemma mset_mdel:
  assumes "mget m k = Some v"
  shows "mset (entries m) = add_mset (k, v) (mset (entries (mdel m k)))"
proof -
  have "mset xs = add_mset (k, v) (mset (AList.delete k xs))"
    if "map_of xs k = Some v" and "distinct (map fst xs)" for xs
    using that
  proof (induction xs)
    case (Cons x xs)
    show ?case
    proof (cases "fst x = k")
      case True
      with Cons.prems have "k \<notin> fst ` set xs" "x = (k, v)" by (auto simp: prod_eq_iff)
      then have "AList.delete k xs = xs" by simp
      with \<open>x = (k, v)\<close> show ?thesis by simp
    next
      case False
      with Cons show ?thesis by (cases x) (simp split: if_splits)
    qed
  qed simp
  then show ?thesis
    using assms by (simp add: entries_mdel mget_conv_map_of)
qed

text \<open>The sum of the values of a map.\<close>

lemma sum_mput_new:
  "mget m k = None \<Longrightarrow> sum_list (mvals (mput m k v)) = sum_list (mvals m) + (v :: int)"
  by (simp add: entries_mput_new)

lemma sum_mdel:
  assumes "mget m k = Some v"
  shows "sum_list (mvals (mdel m k)) = sum_list (mvals m) - (v :: int)"
proof -
  have "sum_mset (image_mset snd (mset (entries m))) = v + sum_mset (image_mset snd (mset (entries (mdel m k))))"
    by (simp add: mset_mdel [OF assms])
  then show ?thesis by (simp only: mset_map [symmetric] sum_mset_sum_list)
qed

lemma distinct_mvals:
  assumes "\<And>k v. mget m k = Some v \<Longrightarrow> key v = k"
  shows "distinct (map key (mvals m))"
proof -
  have "map key (mvals m) = mkeys m"
    using assms by (auto simp: mem_entries [symmetric])
  then show ?thesis by (simp only: DAList.impl_of_distinct)
qed

lemma entries_mput_nonempty [simp]: "entries (mput m k v) \<noteq> []"
  by (simp add: entries_mput)

lemma fst_entries [simp]: "fst ` set (entries m) = dom (mget m)"
  using mkeys_set [of _ m] by (auto simp: dom_def)

text \<open>Collecting the results of a partial lookup.\<close>

lemma set_map_filter: "set (List.map_filter f xs) = {y. \<exists>x \<in> set xs. f x = Some y}"
  by (induction xs) (auto simp: List.map_filter_simps split: option.split)

lemma snd_entries [simp]: "snd ` set (entries m) = ran (mget m)"
  using mvals_set [of _ m] by (auto simp: ran_def)

lemma finite_dom_mget [simp]: "finite (dom (mget m))"
  by (metis finite_imageI finite_set fst_entries)

lemma dom_mempty [simp]: "dom (mget mempty) = {}"
  by auto

lemma mlen_card: "mlen m = card (dom (mget m))"
proof -
  have "distinct (mkeys m)" by simp
  then have "card (set (mkeys m)) = length (mkeys m)" by (rule distinct_card)
  then show ?thesis by simp
qed

lemma ranges_entries [simp]: "ranges (entries m) m"
  by (simp add: ranges_def)

lemma ranges_set: "ranges it m \<Longrightarrow> set it = set (entries m)"
  unfolding ranges_def by (metis set_mset_mset)

lemma ranges_length: "ranges it m \<Longrightarrow> length it = mlen m"
  unfolding ranges_def by (metis size_mset)

lemma ranges_mem: "ranges it m \<Longrightarrow> (k, v) \<in> set it \<longleftrightarrow> mget m k = Some v"
  by (simp add: ranges_set mem_entries)

lemma ranges_distinct: "ranges it m \<Longrightarrow> distinct (map fst it)"
proof -
  assume "ranges it m"
  then have "mset (map fst it) = mset (map fst (entries m))"
    by (simp add: ranges_def)
  then show ?thesis
    using DAList.impl_of_distinct [of m] by (metis mset_eq_imp_distinct_iff)
qed

section \<open>Sorting\<close>

text \<open>
  \<open>sort.SliceStable\<close> (and \<open>sort.Slice\<close>, where no two elements are tied) as insertion
  sort by the \<open>less\<close> function the caller gives. \<open>sort.Ints\<close> and \<open>sort.Strings\<close> are
  the library's \<open>sort\<close>; strings are ordered bytewise, as in Go.
\<close>

fun insort_by :: "('a \<Rightarrow> 'a \<Rightarrow> bool) \<Rightarrow> 'a \<Rightarrow> 'a list \<Rightarrow> 'a list" where
  "insort_by lt x [] = [x]"
| "insort_by lt x (y # ys) =
     (if lt y x then y # insort_by lt x ys else x # y # ys)"

definition sort_by :: "('a \<Rightarrow> 'a \<Rightarrow> bool) \<Rightarrow> 'a list \<Rightarrow> 'a list" where
  "sort_by lt xs = foldr (insort_by lt) xs []"

lemma sort_by_simps [simp]:
  "sort_by lt [] = []"
  "sort_by lt (x # xs) = insort_by lt x (sort_by lt xs)"
  by (simp_all add: sort_by_def)

lemma insort_by_key: "insort_by (\<lambda>a b. k a < k b) x xs = insort_key k x xs"
  for k :: "'a \<Rightarrow> 'b :: linorder"
  by (induction xs) (auto simp: not_le)

text \<open>Sorting by a comparison of keys is the library's sort on that key.\<close>

lemma sort_by_key: "sort_by (\<lambda>a b. k a < k b) xs = sort_key k xs"
  for k :: "'a \<Rightarrow> 'b :: linorder"
  by (induction xs) (simp_all add: insort_by_key)

lemma sort_by_keyI:
  fixes k :: "'a \<Rightarrow> 'b :: linorder"
  assumes "\<And>a b. lt a b \<longleftrightarrow> k a < k b"
  shows "sort_by lt xs = sort_key k xs"
proof -
  have "lt = (\<lambda>a b. k a < k b)" using assms by blast
  then show ?thesis by (simp only: sort_by_key)
qed

lemma mset_insort_by [simp]: "mset (insort_by lt x xs) = add_mset x (mset xs)"
  by (induction xs) auto

lemma mset_sort_by [simp]: "mset (sort_by lt xs) = mset xs"
  by (induction xs) auto

lemma set_sort_by [simp]: "set (sort_by lt xs) = set xs"
  by (metis mset_sort_by set_mset_mset)

lemma length_sort_by [simp]: "length (sort_by lt xs) = length xs"
  by (metis mset_sort_by size_mset)

text \<open>The result is sorted for every strict order whose incomparable elements count as equal.\<close>

lemma sorted_sort_by:
  assumes "\<And>a b. lt a b \<Longrightarrow> \<not> lt b a" and "\<And>a b c. \<lbrakk> \<not> lt b a; \<not> lt c b \<rbrakk> \<Longrightarrow> \<not> lt c a"
  shows "sorted_wrt (\<lambda>a b. \<not> lt b a) (sort_by lt xs)"
proof -
  have "sorted_wrt (\<lambda>a b. \<not> lt b a) (insort_by lt x ys)" if "sorted_wrt (\<lambda>a b. \<not> lt b a) ys" for x ys
    using that
  proof (induction ys)
    case (Cons y ys)
    have "set (insort_by lt x ys) = insert x (set ys)" by (metis mset_insort_by set_mset_add_mset_insert set_mset_mset)
    with Cons assms(2) [of y x] assms(1) [of y x] show ?case by (cases "lt y x") auto
  qed simp
  then show ?thesis by (induction xs) simp_all
qed

text \<open>A list whose keys are pairwise different has one sorted arrangement.\<close>

lemma sort_key_unique_perm:
  fixes k :: "'a \<Rightarrow> 'b :: linorder"
  assumes "mset xs = mset ys" and "distinct (map k xs)"
  shows "sort_key k xs = sort_key k ys"
proof (rule map_sorted_distinct_set_unique [where f = k])
  have "set ys = set xs" using assms(1) by (metis mset_eq_setD)
  then show "inj_on k (set (sort_key k xs) \<union> set (sort_key k ys))"
    using assms(2) by (simp add: distinct_map)
  have "mset (map k ys) = mset (map k xs)" using assms(1) by simp
  then have "distinct (map k ys)"
    using assms(2) by (metis mset_eq_imp_distinct_iff)
  then show "distinct (map k (sort_key k ys))"
    by (metis mset_eq_imp_distinct_iff mset_map mset_sort)
  show "distinct (map k (sort_key k xs))"
    using assms(2) by (metis mset_eq_imp_distinct_iff mset_map mset_sort)
  show "set (sort_key k xs) = set (sort_key k ys)"
    using \<open>set ys = set xs\<close> by simp
qed simp_all

lemma distinct_map_sort [simp]: "distinct (map f (sort_key k xs)) \<longleftrightarrow> distinct (map f xs)"
  by (metis mset_eq_imp_distinct_iff mset_map mset_sort)

text \<open>Sorting what a loop over a map selected does not depend on the order of the visit.\<close>

lemma ranges_sort_filter:
  fixes k :: "'v \<Rightarrow> 'b :: linorder"
  assumes "ranges it m" and "distinct (map k (mvals m))"
  shows "sort_key k (filter P (map snd it)) = sort_key k (filter P (mvals m))"
proof (rule sort_key_unique_perm)
  have m: "mset (map snd it) = mset (mvals m)" using assms(1) by (simp add: ranges_def)
  then show "mset (filter P (map snd it)) = mset (filter P (mvals m))" by (metis mset_filter)
  have "distinct (map k (map snd it))"
    using m assms(2) by (metis mset_eq_imp_distinct_iff mset_map)
  then show "distinct (map k (filter P (map snd it)))" by (rule distinct_map_filter)
qed

section \<open>Numbers as text\<close>

text \<open>The digits of a number, as the verb \<open>%d\<close> prints them.\<close>

fun showNat :: "nat \<Rightarrow> string" where
  "showNat n =
     (if n < 10 then [char_of (48 + n)] else showNat (n div 10) @ [char_of (48 + n mod 10)])"

declare showNat.simps [simp del]

definition showInt :: "int \<Rightarrow> string" where
  "showInt i = (if i < 0 then CHR ''-'' # showNat (nat (- i)) else showNat (nat i))"

definition showU64 :: "u64 \<Rightarrow> string" where
  "showU64 w = showNat (unat w)"

definition showBool :: "bool \<Rightarrow> string" where
  "showBool b = (if b then ''true'' else ''false'')"

text \<open>\<open>%08d\<close> and its kin: zeros on the left up to a width.\<close>

definition padNat :: "nat \<Rightarrow> nat \<Rightarrow> string" where
  "padNat w n = replicate (w - length (showNat n)) CHR ''0'' @ showNat n"

fun readNat :: "nat \<Rightarrow> string \<Rightarrow> nat" where
  "readNat acc [] = acc"
| "readNat acc (c # cs) = readNat (acc * 10 + (of_char c - 48)) cs"

lemma readNat_append: "readNat acc (xs @ ys) = readNat (readNat acc xs) ys"
  by (induction xs arbitrary: acc) simp_all

lemma digit_value: "d < 10 \<Longrightarrow> of_char (char_of (48 + d)) - 48 = (d :: nat)"
  by simp

text \<open>Reading back what was printed.\<close>

lemma readNat_showNat: "readNat 0 (showNat n) = n"
proof (induction n rule: showNat.induct)
  case (1 n)
  show ?case
  proof (cases "n < 10")
    case True
    then show ?thesis by (simp add: showNat.simps [of n])
  next
    case False
    with 1 have "readNat 0 (showNat (n div 10)) = n div 10" by simp
    with False show ?thesis by (simp add: showNat.simps [of n] readNat_append)
  qed
qed

lemma showNat_inject [simp]: "showNat m = showNat n \<longleftrightarrow> m = n"
  by (metis readNat_showNat)

lemma showU64_inject [simp]: "showU64 v = showU64 w \<longleftrightarrow> v = w"
  by (auto simp: showU64_def dest: word_unat_eq_iff [THEN iffD2])

lemma readNat_zeros: "readNat 0 (replicate k CHR ''0'' @ xs) = readNat 0 xs"
  by (induction k) simp_all

lemma padNat_inject [simp]: "padNat w m = padNat w n \<longleftrightarrow> m = n"
  by (metis padNat_def readNat_showNat readNat_zeros)

lemma showNat_nonempty [simp]: "showNat n \<noteq> []"
  by (subst showNat.simps) simp

end
