(* ===== verification/Gotime.thy ===== *)
theory Gotime
  imports Prelude
begin

text \<open>
  The part of Go's package \<open>time\<close> that the program uses. A \<open>time.Time\<close> is an instant, in
  nanoseconds since January 1 of year 1 UTC (the zero \<open>Time\<close>), and a location. Comparison,
  \<open>Add\<close> and \<open>Sub\<close> look at the instant only; the location matters only for the wall
  clock (\<open>Hour\<close> and its kin), and \<open>UTC\<close> replaces it. The offset of a location other
  than UTC comes from the host's zone database, which is an argument \<open>tz\<close> of the
  definitions that read the wall clock.

  A \<open>Duration\<close> is an \<open>int64\<close> count of nanoseconds; \<open>Sub\<close> saturates at its bounds, as
  the package documents.
\<close>

datatype location = UTC | Zone string

datatype time = Time (instant: int) (loc: location)

type_synonym duration = int

text \<open>\<open>Before\<close> is the strict order of the instants.\<close>

instantiation time :: preorder
begin

definition less_eq_time :: "time \<Rightarrow> time \<Rightarrow> bool" where
  "less_eq_time s t \<longleftrightarrow> instant s \<le> instant t"

definition less_time :: "time \<Rightarrow> time \<Rightarrow> bool" where
  "less_time s t \<longleftrightarrow> instant s < instant t"

instance
  by standard (auto simp: less_eq_time_def less_time_def)

end

definition zeroTime :: time where "zeroTime = Time 0 UTC"

definition IsZero :: "time \<Rightarrow> bool" where "IsZero t \<longleftrightarrow> instant t = 0"

definition tEqual :: "time \<Rightarrow> time \<Rightarrow> bool" where "tEqual s t \<longleftrightarrow> instant s = instant t"

definition tUTC :: "time \<Rightarrow> time" where "tUTC t = Time (instant t) UTC"

definition tAdd :: "time \<Rightarrow> duration \<Rightarrow> time" where
  "tAdd t d = Time (instant t + d) (loc t)"

definition tSub :: "time \<Rightarrow> time \<Rightarrow> duration" where
  "tSub s t = max minInt64 (min maxInt64 (instant s - instant t))"

definition tUnix :: "time \<Rightarrow> int" where
  "tUnix t = instant t div 1000000000 - 62135596800"

abbreviation Second :: duration where "Second \<equiv> 1000000000"
abbreviation Minute :: duration where "Minute \<equiv> 60000000000"
abbreviation Hour :: duration where "Hour \<equiv> 3600000000000"

section \<open>The wall clock\<close>

type_synonym tzdata = "string \<Rightarrow> int \<Rightarrow> int"

definition zoneOffset :: "tzdata \<Rightarrow> time \<Rightarrow> int" where
  "zoneOffset tz t = (case loc t of UTC \<Rightarrow> 0 | Zone z \<Rightarrow> tz z (instant t))"

definition wall :: "tzdata \<Rightarrow> time \<Rightarrow> int" where
  "wall tz t = instant t + zoneOffset tz t * Second"

definition tHour :: "tzdata \<Rightarrow> time \<Rightarrow> int" where
  "tHour tz t = wall tz t mod (24 * Hour) div Hour"

definition tMinute :: "tzdata \<Rightarrow> time \<Rightarrow> int" where
  "tMinute tz t = wall tz t mod Hour div Minute"

definition tSecond :: "tzdata \<Rightarrow> time \<Rightarrow> int" where
  "tSecond tz t = wall tz t mod Minute div Second"

definition tNanosecond :: "tzdata \<Rightarrow> time \<Rightarrow> int" where
  "tNanosecond tz t = wall tz t mod Second"

section \<open>Formatting\<close>

text \<open>
  Year, month and day of a count of days since January 1 of year 1, in the proleptic Gregorian
  calendar, counting years from March.
\<close>

definition civil :: "int \<Rightarrow> int \<times> int \<times> int" where
  "civil days =
     (let z = days + 306;
          era = z div 146097;
          doe = z mod 146097;
          yoe = (doe - doe div 1460 + doe div 36524 - doe div 146096) div 365;
          doy = doe - (365 * yoe + yoe div 4 - yoe div 100);
          mp = (5 * doy + 2) div 153;
          d = doy - (153 * mp + 2) div 5 + 1;
          m = (if mp < 10 then mp + 3 else mp - 9)
      in (yoe + era * 400 + (if m \<le> 2 then 1 else 0), m, d))"

definition padInt :: "nat \<Rightarrow> int \<Rightarrow> string" where
  "padInt w i = (if i < 0 then CHR ''-'' # padNat w (nat (- i)) else padNat w (nat i))"

text \<open>The fraction of a second without its trailing zeros, with its point.\<close>

definition fracNano :: "int \<Rightarrow> string" where
  "fracNano ns =
     (if ns = 0 then []
      else CHR ''.'' # rev (dropWhile (\<lambda>c. c = CHR ''0'') (rev (padInt 9 ns))))"

text \<open>\<open>t.UTC().Format(time.RFC3339Nano)\<close>.\<close>

definition rfc3339Nano :: "time \<Rightarrow> string" where
  "rfc3339Nano t =
     (let (y, m, d) = civil (instant t div (24 * Hour));
          ns = instant t mod (24 * Hour)
      in padInt 4 y @ ''-'' @ padInt 2 m @ ''-'' @ padInt 2 d @ ''T'' @
         padInt 2 (ns div Hour) @ '':'' @ padInt 2 (ns mod Hour div Minute) @ '':'' @
         padInt 2 (ns mod Minute div Second) @ fracNano (ns mod Second) @ ''Z'')"

section \<open>Facts\<close>

lemma time_less_iff [simp]: "s < t \<longleftrightarrow> instant s < instant t" for s t :: time
  by (simp add: less_time_def)

lemma time_le_iff [simp]: "s \<le> t \<longleftrightarrow> instant s \<le> instant t" for s t :: time
  by (simp add: less_eq_time_def)

lemma instant_simps [simp]:
  "instant zeroTime = 0" "instant (tUTC t) = instant t" "instant (tAdd t d) = instant t + d"
  by (simp_all add: zeroTime_def tUTC_def tAdd_def)

lemma loc_simps [simp]:
  "loc zeroTime = UTC" "loc (tUTC t) = UTC" "loc (tAdd t d) = loc t"
  by (simp_all add: zeroTime_def tUTC_def tAdd_def)

lemma tUTC_idem [simp]: "tUTC (tUTC t) = tUTC t"
  by (simp add: tUTC_def)

lemma IsZero_simps [simp]:
  "IsZero zeroTime" "IsZero (tUTC t) = IsZero t"
  by (simp_all add: IsZero_def)

lemma tSub_range: "in_int64 (tSub s t)"
  by (simp add: tSub_def in_int64_def minInt64_def maxInt64_def)

text \<open>Comparing a saturated difference with a duration is comparing the exact one.\<close>

lemma tSub_less_iff: "in_int64 d \<Longrightarrow> tSub s t < d \<longleftrightarrow> instant s - instant t < d \<and> minInt64 < d"
  by (auto simp: tSub_def in_int64_def minInt64_def maxInt64_def)

lemma wall_of_utc [simp]: "loc t = UTC \<Longrightarrow> wall tz t = instant t"
  by (simp add: wall_def zoneOffset_def)

text \<open>Hour, minute, second and nanosecond together are the time since midnight.\<close>

lemma time_of_day:
  "tHour tz t * Hour + tMinute tz t * Minute + tSecond tz t * Second + tNanosecond tz t
     = wall tz t mod (24 * Hour)"
proof -
  let ?w = "wall tz t"
  have "?w mod (24 * Hour) mod Hour = ?w mod Hour" "?w mod Hour mod Minute = ?w mod Minute"
    "?w mod Minute mod Second = ?w mod Second"
    by (simp_all add: mod_mod_cancel)
  then show ?thesis
    unfolding tHour_def tMinute_def tSecond_def tNanosecond_def
    using div_mult_mod_eq [of "?w mod (24 * Hour)" Hour] div_mult_mod_eq [of "?w mod Hour" Minute]
      div_mult_mod_eq [of "?w mod Minute" Second]
    by linarith
qed

end
