(* ===== verification/Model.thy ===== *)
theory Model
  imports Prelude Gotime
begin

text \<open>
  Package \<open>model\<close>: the data the packages exchange, the error values of every package, and the
  process-wide source of identifiers.

  A Go function that returns \<open>(T, error)\<close> returns \<open>error + T\<close>, one that returns
  \<open>error\<close> only returns \<open>error option\<close> (\<open>None\<close> for \<open>nil\<close>), and one that
  returns \<open>(T, bool)\<close> returns \<open>T option\<close>. A method that changes its receiver returns the
  new state first. Methods are modelled on an existing receiver: the guards for a \<open>nil\<close>
  receiver, which return the zero value and have no state to change, have no counterpart.
  A mutex-protected method is one atomic step.
\<close>

section \<open>Errors\<close>

text \<open>
  The sentinel errors of all packages, and errors built by \<open>fmt.Errorf\<close>: \<open>Errorf\<close> with the
  message, \<open>Wrapf\<close> for a message that wraps a sentinel with \<open>%w\<close>, and \<open>Foreign\<close>
  for an error that comes from outside (a context, a reader, a sender, a codec).
\<close>

datatype error =
    ErrNotFound | ErrConflict | ErrLeaseHeld | ErrLeaseFenced | ErrJournalClosed
  | ErrInvalidTransition | ErrCapacity | ErrCancelled
  | ErrBrokenChain
  | ErrExists | ErrMissing | ErrGeneration | ErrTransition
  | ErrManifestMissing | ErrDigest
  | ErrVersionConflict
  | ErrUnknownSite | ErrStaleRemoteGeneration
  | ErrAlreadyQuarantined | ErrNotQuarantined
  | ErrStaleOffset | ErrStaleGeneration
  | ErrPolicy
  | ErrDisabled | ErrOutsideWindow | ErrConcurrency
  | ErrSnapshotNotFound | ErrInvalidManifest | ErrQuorumNotReached | ErrNoRecoveryPoint
  | ErrNoProgress
  | Errorf string
  | Wrapf error string
  | Foreign string

type_synonym 'a result = "error + 'a"

section \<open>Data\<close>

datatype SnapshotState =
    SnapshotStaged | SnapshotPublished | SnapshotVerified | SnapshotExpired
  | SnapshotOther string

fun stateString :: "SnapshotState \<Rightarrow> string" where
  "stateString SnapshotStaged = ''staged''"
| "stateString SnapshotPublished = ''published''"
| "stateString SnapshotVerified = ''verified''"
| "stateString SnapshotExpired = ''expired''"
| "stateString (SnapshotOther s) = s"

record Chunk =
  c_Index :: int
  c_Digest :: string
  c_Data :: bytes

record Snapshot =
  s_ID :: string
  s_BaseID :: string
  s_Operation :: string
  s_Generation :: u64
  s_Full :: bool
  s_State :: SnapshotState
  s_Metadata :: "(string, string) gomap"
  s_Chunks :: "Chunk list"
  s_CreatedAt :: time

record CaptureHandle =
  h_Operation :: string
  h_SnapshotID :: string
  h_Owner :: string
  h_LeaseEpoch :: u64
  h_Generation :: u64

record Lease =
  l_Resource :: string
  l_Owner :: string
  l_Epoch :: u64
  l_Deadline :: time
  l_Released :: bool

record VerificationReceipt =
  v_SnapshotID :: string
  v_Generation :: u64
  v_Digest :: string
  v_VerifiedAt :: time

record RetryTask =
  t_ID :: string
  t_SnapshotID :: string
  t_Generation :: u64
  t_Attempt :: int
  t_DueAt :: time

record RestorePlan =
  p_ID :: string
  p_SnapshotID :: string
  p_Chunks :: "int list"
  p_Cursor :: int
  p_CreatedAt :: time

text \<open>
  \<open>Clock.Now\<close> is read several times in one operation, and each reading may differ. An operation
  that reads the clock more than once takes \<open>ck\<close>, where \<open>ck i\<close> is the \<open>i\<close>-th
  reading; one that reads it once takes the reading.
\<close>

type_synonym clock = "nat \<Rightarrow> time"

section \<open>Identifiers\<close>

text \<open>\<open>NewID\<close> on the value of the package's atomic counter \<open>nextID\<close>.\<close>

definition NewID :: "string \<Rightarrow> u64 \<Rightarrow> u64 \<times> string" where
  "NewID prefix nextID = (nextID + 1, prefix @ ''-'' @ padNat 8 (unat (nextID + 1)))"

lemma NewID_inject:
  "snd (NewID p m) = snd (NewID p n) \<longleftrightarrow> m = n"
proof -
  have "unat (m + 1) = unat (n + 1) \<longleftrightarrow> m = n"
    by (simp add: word_unat_eq_iff [symmetric])
  then show ?thesis by (simp add: NewID_def)
qed

end
