(* ===== verification/Contracts.thy ===== *)
theory Contracts
  imports Prelude
begin

text \<open>
  The contracts several packages share, as locales. A component is a state with operations; each
  theory of a component gathers its operations in a datatype and a step function, and interprets
  here
  \<^item> \<open>step_invariant\<close>: what holds before an operation holds after it, and its extension
    \<open>invariant_machine\<close>: such an invariant that also holds initially;
  \<^item> \<open>monotone_store\<close>: a quantity per key that no operation lowers (epochs, versions,
    generations, cancellation marks);
  \<^item> \<open>append_log\<close>: a log that only grows at its end, numbering its records \<open>1, 2, ...\<close>
    (the journal and the audit ledger);
  \<^item> \<open>ref_counter\<close>: the promise of a reference counter, which \<open>gc.Store\<close> implements.
\<close>

locale step_invariant =
  fixes step :: "'op \<Rightarrow> 's \<Rightarrow> 's"
    and inv :: "'s \<Rightarrow> bool"
  assumes inv_step: "inv s \<Longrightarrow> inv (step op s)"
begin

lemma inv_run: "inv s \<Longrightarrow> inv (fold step ops s)"
  by (induction ops arbitrary: s) (simp_all add: inv_step)

end

locale invariant_machine = step_invariant step inv
  for init :: 's
    and step :: "'op \<Rightarrow> 's \<Rightarrow> 's"
    and inv :: "'s \<Rightarrow> bool" +
  assumes inv_init: "inv init"
begin

lemma inv_reached: "inv (fold step ops init)"
  by (rule inv_run) (rule inv_init)

end

locale monotone_store =
  fixes step :: "'op \<Rightarrow> 's \<Rightarrow> 's"
    and mark :: "'s \<Rightarrow> 'k \<Rightarrow> 'v :: preorder"
  assumes step_mono: "mark s k \<le> mark (step op s) k"
begin

lemma run_mono: "mark s k \<le> mark (fold step ops s) k"
proof (induction ops arbitrary: s)
  case Nil
  show ?case by simp
next
  case (Cons op ops)
  have "mark s k \<le> mark (step op s) k" by (rule step_mono)
  also have "\<dots> \<le> mark (fold step ops (step op s)) k" by (rule Cons)
  finally show ?case by simp
qed

text \<open>What was passed stays passed: a bound reached once holds after every later run.\<close>

lemma run_keeps_bound: "b \<le> mark s k \<Longrightarrow> b \<le> mark (fold step ops s) k"
  by (rule order_trans [OF _ run_mono])

end

locale append_log =
  fixes records :: "'l \<Rightarrow> 'r list"
    and seq :: "'r \<Rightarrow> u64"
    and next_seq :: "'l \<Rightarrow> u64"
    and step :: "'op \<Rightarrow> 'l \<Rightarrow> 'l"
    and init :: 'l
  assumes init_records: "records init = []"
    and init_next: "next_seq init = 1"
    and step_appends: "\<exists>rs. records (step op l) = records l @ rs
      \<and> map seq rs = map (\<lambda>i. next_seq l + of_nat i) [0..<length rs]
      \<and> next_seq (step op l) = next_seq l + of_nat (length rs)"
begin

definition numbered :: "'l \<Rightarrow> bool" where
  "numbered l \<longleftrightarrow> map seq (records l) = map (\<lambda>i. of_nat (Suc i)) [0..<length (records l)]
     \<and> next_seq l = of_nat (Suc (length (records l)))"

lemma map_upt_append:
  "map f [0..<m] @ map (\<lambda>i. f (m + i)) [0..<n] = map f [0..<m + n]"
  by (rule nth_equalityI) (auto simp: nth_append)

lemma numbered_step: "numbered l \<Longrightarrow> numbered (step op l)"
proof -
  assume l: "numbered l"
  obtain rs where r: "records (step op l) = records l @ rs"
    "map seq rs = map (\<lambda>i. next_seq l + of_nat i) [0..<length rs]"
    "next_seq (step op l) = next_seq l + of_nat (length rs)"
    using step_appends by blast
  have "map seq (records (step op l)) =
      map (\<lambda>i. of_nat (Suc i)) [0..<length (records l)]
      @ map (\<lambda>i. of_nat (Suc (length (records l) + i))) [0..<length rs]"
    using l r by (simp add: numbered_def ac_simps)
  also have "\<dots> = map (\<lambda>i. of_nat (Suc i)) [0..<length (records (step op l))]"
    unfolding r length_append by (rule map_upt_append)
  finally show ?thesis
    using l r by (simp add: numbered_def)
qed

sublocale counted: invariant_machine init step numbered
proof
  show "numbered init" by (simp add: numbered_def init_records init_next)
qed (rule numbered_step)

text \<open>A record keeps its place: what was logged is a prefix of every later log.\<close>

lemma prefix_kept: "\<exists>rs. records (fold step ops l) = records l @ rs"
proof (induction ops arbitrary: l)
  case (Cons op ops)
  obtain rs where "records (step op l) = records l @ rs" using step_appends by blast
  moreover obtain rs' where "records (fold step ops (step op l)) = records (step op l) @ rs'"
    using Cons by blast
  ultimately show ?case by simp
qed simp

lemma nth_seq:
  assumes "i < length (records (fold step ops init))"
  shows "seq (records (fold step ops init) ! i) = of_nat (Suc i)"
proof -
  let ?l = "fold step ops init"
  have "map seq (records ?l) = map (\<lambda>i. of_nat (Suc i)) [0..<length (records ?l)]"
    using counted.inv_reached unfolding numbered_def by blast
  then have "map seq (records ?l) ! i = map (\<lambda>i. of_nat (Suc i)) [0..<length (records ?l)] ! i"
    by simp
  then show ?thesis using assms by (simp del: of_nat_Suc)
qed

end

locale ref_counter =
  fixes inv :: "'s \<Rightarrow> bool"
    and count :: "'s \<Rightarrow> 'd \<Rightarrow> int"
    and add :: "'d \<Rightarrow> int \<Rightarrow> 's \<Rightarrow> 's"
    and release :: "'d \<Rightarrow> int \<Rightarrow> 's \<Rightarrow> 's"
  assumes inv_add: "\<lbrakk> inv s; in_int64 (count s d + n) \<rbrakk> \<Longrightarrow> inv (add d n s)"
    and inv_release: "inv s \<Longrightarrow> inv (release d n s)"
    and count_nonneg: "inv s \<Longrightarrow> 0 \<le> count s d"
    and count_add: "\<lbrakk> inv s; in_int64 (count s d + n) \<rbrakk> \<Longrightarrow>
      count (add d n s) e = (if e = d \<and> 0 < n then count s e + n else count s e)"
    and count_release: "\<lbrakk> inv s; in_int64 n \<rbrakk> \<Longrightarrow>
      count (release d n s) e = (if e = d \<and> 0 < n then max 0 (count s e - n) else count s e)"
begin

text \<open>Releasing what was added restores every count.\<close>

lemma add_release:
  assumes "inv s" and "in_int64 n" and "in_int64 (count s d + n)"
  shows "count (release d n (add d n s)) e = count s e"
  using assms count_nonneg [OF assms(1)] by (simp add: inv_add count_add count_release)

text \<open>The order of releases does not matter.\<close>

lemma release_order:
  assumes "inv s" and "in_int64 m" and "in_int64 n"
  shows "count (release d m (release e n s)) x = count (release e n (release d m s)) x"
  using assms by (auto simp: count_release inv_release)

end

end
