(* ===== verification/Catalog.thy ===== *)
theory Catalog
  imports Model Contracts
begin

text \<open>
  Package \<open>catalog\<close> (\<open>internal/catalog/store.go\<close>): chunk staging, digest reservations,
  published snapshots, restore references and retention. The invariant bounds staging and keeps
  published chunk lists strictly ordered; the lemmas give the behaviour of commit, of retention for
  every order the unstable sort may choose among snapshots of the same age, and of the reference
  sets.
\<close>

record CatalogStore =
  cat_snapshots :: "(string, Snapshot) gomap"
  cat_staged :: "(string, (int, Chunk) gomap) gomap"
  cat_reservations :: "(string, string) gomap"
  cat_restoreRefs :: "(string, (string, unit) gomap) gomap"
  cat_maxChunkCount :: int

definition catalog_New :: "int \<Rightarrow> CatalogStore" where
  "catalog_New maxChunkCount =
     \<lparr>cat_snapshots = mempty, cat_staged = mempty, cat_reservations = mempty,
      cat_restoreRefs = mempty,
      cat_maxChunkCount = (if maxChunkCount < 1 then 64 else maxChunkCount)\<rparr>"

definition cloneChunk :: "Chunk \<Rightarrow> Chunk" where
  "cloneChunk chunk = chunk\<lparr>c_Data := [] @ c_Data chunk\<rparr>"

definition cloneSnapshot :: "Snapshot \<Rightarrow> Snapshot" where
  "cloneSnapshot snapshot =
     snapshot\<lparr>s_Metadata := fold (\<lambda>(key, val) m. mput m key val) (entries (s_Metadata snapshot)) mempty,
       s_Chunks := map cloneChunk (s_Chunks snapshot)\<rparr>"

definition orderedChunks :: "(int, Chunk) gomap \<Rightarrow> Chunk list" where
  "orderedChunks values = map (\<lambda>index. cloneChunk (the (mget values index))) (sort (mkeys values))"

definition catalog_ReserveDigest ::
  "string \<Rightarrow> string \<Rightarrow> CatalogStore \<Rightarrow> CatalogStore \<times> error option" where
  "catalog_ReserveDigest operation digest s =
     (case mget (cat_reservations s) digest of
        Some owner \<Rightarrow>
          if owner \<noteq> operation then (s, Some ErrConflict)
          else (s\<lparr>cat_reservations := mput (cat_reservations s) digest operation\<rparr>, None)
      | None \<Rightarrow> (s\<lparr>cat_reservations := mput (cat_reservations s) digest operation\<rparr>, None))"

definition catalog_StageChunk ::
  "string \<Rightarrow> Chunk \<Rightarrow> CatalogStore \<Rightarrow> CatalogStore \<times> error option" where
  "catalog_StageChunk operation chunk s =
     (let chunks = mgetd mempty (cat_staged s) operation;
          s1 = (if mget (cat_staged s) operation = None
                then s\<lparr>cat_staged := mput (cat_staged s) operation chunks\<rparr> else s)
      in case mget chunks (c_Index chunk) of
           None \<Rightarrow>
             if int (mlen chunks) \<ge> cat_maxChunkCount s then (s1, Some ErrCapacity)
             else (s1\<lparr>cat_staged := mput (cat_staged s1) operation
                     (mput chunks (c_Index chunk) (cloneChunk chunk))\<rparr>, None)
         | Some existing \<Rightarrow>
             if c_Digest existing \<noteq> c_Digest chunk then (s1, Some ErrConflict)
             else (s1\<lparr>cat_staged := mput (cat_staged s1) operation
                     (mput chunks (c_Index chunk) (cloneChunk chunk))\<rparr>, None))"

definition catalog_ReleaseDigest :: "string \<Rightarrow> string \<Rightarrow> CatalogStore \<Rightarrow> CatalogStore" where
  "catalog_ReleaseDigest operation digest s =
     (if mgetd [] (cat_reservations s) digest = operation
      then s\<lparr>cat_reservations := mdel (cat_reservations s) digest\<rparr> else s)"

text \<open>The loop that deletes the reservations of one owner.\<close>

definition dropOwner :: "string \<Rightarrow> (string, string) gomap \<Rightarrow> (string, string) gomap" where
  "dropOwner operation reservations = mfilter (\<lambda>(digest, owner). owner \<noteq> operation) reservations"

definition catalog_ForgetOperation :: "string \<Rightarrow> CatalogStore \<Rightarrow> CatalogStore" where
  "catalog_ForgetOperation operation s =
     s\<lparr>cat_staged := mdel (cat_staged s) operation,
       cat_reservations := dropOwner operation (cat_reservations s)\<rparr>"

definition catalog_CommitSnapshot :: "Snapshot \<Rightarrow> CatalogStore \<Rightarrow> CatalogStore \<times> error option" where
  "catalog_CommitSnapshot snapshot s =
     (if mget (cat_snapshots s) (s_ID snapshot) \<noteq> None then (s, Some ErrConflict)
      else let chunks = mgetd mempty (cat_staged s) (s_Operation snapshot) in
        if mlen chunks = 0 then (s, Some ErrNotFound)
        else let snapshot' = snapshot\<lparr>s_Chunks := orderedChunks chunks, s_State := SnapshotPublished\<rparr>
          in (s\<lparr>cat_snapshots := mput (cat_snapshots s) (s_ID snapshot') (cloneSnapshot snapshot'),
                cat_staged := mdel (cat_staged s) (s_Operation snapshot'),
                cat_reservations := dropOwner (s_Operation snapshot') (cat_reservations s)\<rparr>, None))"

definition catalog_Snapshot :: "string \<Rightarrow> CatalogStore \<Rightarrow> Snapshot option" where
  "catalog_Snapshot sid s = map_option cloneSnapshot (mget (cat_snapshots s) sid)"

definition catalog_SetState ::
  "string \<Rightarrow> u64 \<Rightarrow> SnapshotState \<Rightarrow> CatalogStore \<Rightarrow> CatalogStore \<times> error option" where
  "catalog_SetState sid generation state s =
     (case mget (cat_snapshots s) sid of
        None \<Rightarrow> (s, Some ErrNotFound)
      | Some snapshot \<Rightarrow>
          if s_Generation snapshot \<noteq> generation then (s, Some ErrConflict)
          else (s\<lparr>cat_snapshots := mput (cat_snapshots s) sid (snapshot\<lparr>s_State := state\<rparr>)\<rparr>, None))"

definition catalog_AddRestoreReference :: "string \<Rightarrow> string \<Rightarrow> CatalogStore \<Rightarrow> CatalogStore" where
  "catalog_AddRestoreReference planID snapshotID s =
     (let refs = mgetd mempty (cat_restoreRefs s) snapshotID
      in s\<lparr>cat_restoreRefs := mput (cat_restoreRefs s) snapshotID (mput refs planID ())\<rparr>)"

definition catalog_RemoveRestoreReference ::
  "string \<Rightarrow> string \<Rightarrow> CatalogStore \<Rightarrow> CatalogStore \<times> bool" where
  "catalog_RemoveRestoreReference planID snapshotID s =
     (let refs = mgetd mempty (cat_restoreRefs s) snapshotID in
      if mget refs planID = None then (s, False)
      else let refs' = mdel refs planID in
        (if mlen refs' = 0 then s\<lparr>cat_restoreRefs := mdel (cat_restoreRefs s) snapshotID\<rparr>
         else s\<lparr>cat_restoreRefs := mput (cat_restoreRefs s) snapshotID refs'\<rparr>, True))"

definition catalog_HasRestoreRef :: "string \<Rightarrow> CatalogStore \<Rightarrow> bool" where
  "catalog_HasRestoreRef snapshotID s \<longleftrightarrow> mlen (mgetd mempty (cat_restoreRefs s) snapshotID) > 0"

text \<open>
  \<open>ExpireUnprotected\<close>: \<open>all\<close> is the slice after \<open>sort.Slice\<close>, newest first. The
  sort is not stable and its input comes from a \<open>range\<close>, so every arrangement that
  \<open>expire_order\<close> allows can occur.
\<close>

definition expire_order :: "CatalogStore \<Rightarrow> Snapshot list \<Rightarrow> bool" where
  "expire_order s all \<longleftrightarrow>
     mset all = mset (mvals (cat_snapshots s)) \<and>
     sorted_wrt (\<lambda>a b. \<not> s_CreatedAt a < s_CreatedAt b) all"

fun expire_loop :: "int \<Rightarrow> int \<Rightarrow> Snapshot list \<Rightarrow> CatalogStore \<Rightarrow> CatalogStore \<times> string list" where
  "expire_loop keep index [] s = (s, [])"
| "expire_loop keep index (snapshot # rest) s =
     (if index < keep \<or> catalog_HasRestoreRef (s_ID snapshot) s
      then expire_loop keep (index + 1) rest s
      else let snapshot' = snapshot\<lparr>s_State := SnapshotExpired\<rparr>;
               (s', expired) = expire_loop keep (index + 1) rest
                 (s\<lparr>cat_snapshots := mput (cat_snapshots s) (s_ID snapshot') snapshot'\<rparr>)
           in (s', s_ID snapshot' # expired))"

definition catalog_ExpireUnprotected ::
  "Snapshot list \<Rightarrow> int \<Rightarrow> CatalogStore \<Rightarrow> CatalogStore \<times> string list" where
  "catalog_ExpireUnprotected all keep s =
     (let (s', expired) = expire_loop keep 0 all s in (s', sort expired))"

text \<open>\<open>LastVerifiedFull\<close>, over the snapshots in the order \<open>it\<close> the \<open>range\<close> visits them.\<close>

fun lastFull_loop :: "u64 \<Rightarrow> Snapshot option \<Rightarrow> Snapshot list \<Rightarrow> Snapshot option" where
  "lastFull_loop before selected [] = selected"
| "lastFull_loop before selected (snapshot # rest) =
     (if \<not> s_Full snapshot \<or> s_State snapshot \<noteq> SnapshotVerified \<or> s_Generation snapshot \<ge> before
      then lastFull_loop before selected rest
      else case selected of
             None \<Rightarrow> lastFull_loop before (Some snapshot) rest
           | Some best \<Rightarrow>
               lastFull_loop before
                 (if s_Generation snapshot > s_Generation best then Some snapshot else selected) rest)"

definition catalog_LastVerifiedFull :: "(string \<times> Snapshot) list \<Rightarrow> u64 \<Rightarrow> Snapshot option" where
  "catalog_LastVerifiedFull it beforeGeneration =
     map_option cloneSnapshot (lastFull_loop beforeGeneration None (map snd it))"

lemmas catalog_defs [step_defs] =
  catalog_New_def catalog_ReserveDigest_def catalog_StageChunk_def catalog_ReleaseDigest_def
  catalog_ForgetOperation_def catalog_CommitSnapshot_def catalog_Snapshot_def catalog_SetState_def
  catalog_AddRestoreReference_def catalog_RemoveRestoreReference_def catalog_HasRestoreRef_def
  dropOwner_def

section \<open>Copies\<close>

text \<open>A deep copy has the value of its original.\<close>

lemma cloneChunk_id [simp]: "cloneChunk c = c"
  by (simp add: cloneChunk_def)

lemma update_nonkey: "k \<notin> fst ` set al \<Longrightarrow> AList.update k v al = al @ [(k, v)]"
  by (induction al) auto

lemma entries_fold_mput:
  assumes "distinct (map fst xs)" and "set (map fst xs) \<inter> set (mkeys m) = {}"
  shows "entries (fold (\<lambda>(k, v) m. mput m k v) xs m) = entries m @ xs"
  using assms
proof (induction xs arbitrary: m)
  case (Cons x xs)
  obtain k v where x: "x = (k, v)" by fastforce
  have "k \<notin> set (mkeys m)" using Cons.prems x by auto
  then have e: "entries (mput m k v) = entries m @ [(k, v)]"
    by (simp add: entries_mput update_nonkey)
  have "entries (fold (\<lambda>(k, v) m. mput m k v) xs (mput m k v)) = entries (mput m k v) @ xs"
    by (rule Cons.IH) (use Cons.prems x in \<open>auto simp: e\<close>)
  then show ?case by (simp add: x e)
qed simp

lemma fold_mput_entries [simp]: "fold (\<lambda>(k, v) m. mput m k v) (entries m) mempty = m"
  by (rule DAList.alist_ext) (simp add: entries_fold_mput)

lemma cloneSnapshot_id [simp]: "cloneSnapshot s = s"
  by (simp add: cloneSnapshot_def map_idI)

lemma catalog_Snapshot_mget [simp]: "catalog_Snapshot sid s = mget (cat_snapshots s) sid"
  by (cases "mget (cat_snapshots s) sid") (simp_all add: catalog_Snapshot_def)

section \<open>Ordered chunks\<close>

definition indexed :: "(int, Chunk) gomap \<Rightarrow> bool" where
  "indexed m \<longleftrightarrow> (\<forall>i c. mget m i = Some c \<longrightarrow> c_Index c = i)"

lemma length_orderedChunks [simp]: "length (orderedChunks m) = mlen m"
  by (simp add: orderedChunks_def)

lemma orderedChunks_index:
  assumes "indexed m"
  shows "map c_Index (orderedChunks m) = sort (mkeys m)"
proof -
  have "c_Index (the (mget m i)) = i" if "i \<in> set (mkeys m)" for i
    using that assms by (auto simp: indexed_def)
  then show ?thesis
    unfolding orderedChunks_def map_map by (intro map_idI) simp
qed

lemma orderedChunks_strict:
  "indexed m \<Longrightarrow> sorted_wrt (<) (map c_Index (orderedChunks m))"
  by (simp add: orderedChunks_index strict_sorted_iff)

lemma set_orderedChunks: "c \<in> set (orderedChunks m) \<longleftrightarrow> (\<exists>i. mget m i = Some c)"
proof -
  have "set (orderedChunks m) = (\<lambda>i. the (mget m i)) ` dom (mget m)"
    by (simp add: orderedChunks_def)
  then show ?thesis by (force simp: image_iff)
qed

section \<open>The invariant\<close>

definition catalog_inv :: "CatalogStore \<Rightarrow> bool" where
  "catalog_inv s \<longleftrightarrow>
     1 \<le> cat_maxChunkCount s
   \<and> (\<forall>op m. mget (cat_staged s) op = Some m \<longrightarrow> indexed m \<and> int (mlen m) \<le> cat_maxChunkCount s)
   \<and> (\<forall>i sn. mget (cat_snapshots s) i = Some sn \<longrightarrow>
        s_ID sn = i \<and> s_Chunks sn \<noteq> [] \<and> sorted_wrt (<) (map c_Index (s_Chunks sn))
        \<and> int (length (s_Chunks sn)) \<le> cat_maxChunkCount s)
   \<and> (\<forall>i m. mget (cat_restoreRefs s) i = Some m \<longrightarrow> 0 < mlen m)"

lemma catalog_inv_New: "catalog_inv (catalog_New n)"
  by (simp add: catalog_inv_def catalog_New_def)

lemma catalog_inv_ReserveDigest: "catalog_inv s \<Longrightarrow> catalog_inv (fst (catalog_ReserveDigest op d s))"
  by (simp add: catalog_inv_def catalog_ReserveDigest_def split: option.split)

lemma catalog_inv_ReleaseDigest: "catalog_inv s \<Longrightarrow> catalog_inv (catalog_ReleaseDigest op d s)"
  by (simp add: catalog_inv_def catalog_ReleaseDigest_def)

lemma catalog_inv_ForgetOperation: "catalog_inv s \<Longrightarrow> catalog_inv (catalog_ForgetOperation op s)"
  by (simp add: catalog_inv_def catalog_ForgetOperation_def)

lemma indexed_mput: "indexed m \<Longrightarrow> indexed (mput m (c_Index c) c)"
  by (simp add: indexed_def gomap_simps)

lemma staged_inv:
  assumes "catalog_inv s"
  shows "indexed (mgetd mempty (cat_staged s) op)"
    and "int (mlen (mgetd mempty (cat_staged s) op)) \<le> cat_maxChunkCount s"
  using assms by (cases "mget (cat_staged s) op"; force simp: catalog_inv_def indexed_def)+

lemma catalog_inv_StageChunk:
  assumes "catalog_inv s"
  shows "catalog_inv (fst (catalog_StageChunk op c s))"
proof -
  let ?m = "mgetd mempty (cat_staged s) op"
  note staged_inv [OF assms, of op]
  moreover have "int (mlen (mput ?m (c_Index c) c)) \<le> cat_maxChunkCount s"
    if "mget ?m (c_Index c) \<noteq> None \<or> int (mlen ?m) < cat_maxChunkCount s"
    using that staged_inv(2) [OF assms, of op] by (auto simp: mlen_mput)
  moreover have "1 \<le> cat_maxChunkCount s" using assms by (simp add: catalog_inv_def)
  ultimately show ?thesis
    using assms
    by (auto simp: catalog_StageChunk_def Let_def catalog_inv_def gomap_simps indexed_mput
        split: option.split)
qed

lemma catalog_inv_CommitSnapshot:
  assumes "catalog_inv s"
  shows "catalog_inv (fst (catalog_CommitSnapshot sn s))"
proof -
  let ?m = "mgetd mempty (cat_staged s) (s_Operation sn)"
  note m = staged_inv [OF assms, of "s_Operation sn"]
  have "orderedChunks ?m \<noteq> []" if "mlen ?m \<noteq> 0"
    using that length_orderedChunks [of ?m] by (metis list.size(3))
  with m orderedChunks_strict [OF m(1)] show ?thesis
    using assms
    by (auto simp: catalog_CommitSnapshot_def Let_def catalog_inv_def gomap_simps)
qed

lemma catalog_inv_SetState: "catalog_inv s \<Longrightarrow> catalog_inv (fst (catalog_SetState i g st s))"
  by (auto simp: catalog_inv_def catalog_SetState_def gomap_simps split: option.split)

lemma catalog_inv_AddRestoreReference:
  "catalog_inv s \<Longrightarrow> catalog_inv (catalog_AddRestoreReference p i s)"
  by (auto simp: catalog_inv_def catalog_AddRestoreReference_def Let_def gomap_simps mlen_mput)

lemma catalog_inv_RemoveRestoreReference:
  "catalog_inv s \<Longrightarrow> catalog_inv (fst (catalog_RemoveRestoreReference p i s))"
  by (auto simp: catalog_inv_def catalog_RemoveRestoreReference_def Let_def gomap_simps)

section \<open>Retention\<close>

lemma HasRestoreRef_cong [simp]:
  "catalog_HasRestoreRef i (s\<lparr>cat_snapshots := m\<rparr>) = catalog_HasRestoreRef i s"
  by (simp add: catalog_HasRestoreRef_def)

text \<open>What one pass expires, and what it leaves in the store.\<close>

definition expirable :: "int \<Rightarrow> int \<Rightarrow> Snapshot list \<Rightarrow> CatalogStore \<Rightarrow> Snapshot list" where
  "expirable keep index all s =
     filter (\<lambda>sn. \<not> catalog_HasRestoreRef (s_ID sn) s) (drop (nat (keep - index)) all)"

lemma expire_loop_ids:
  "snd (expire_loop keep index all s) = map s_ID (expirable keep index all s)"
proof (induction keep index all s rule: expire_loop.induct)
  case (2 keep index sn rest s)
  show ?case
  proof (cases "index < keep")
    case True
    then have "nat (keep - index) = Suc (nat (keep - (index + 1)))" by simp
    with True 2(1) show ?thesis by (simp add: expirable_def)
  next
    case False
    then have "nat (keep - index) = 0" "nat (keep - (index + 1)) = 0" by simp_all
    with False 2 show ?thesis by (auto simp: expirable_def Let_def split_beta)
  qed
qed (simp add: expirable_def)

lemma expire_loop_frame:
  "cat_staged (fst (expire_loop keep index all s)) = cat_staged s"
  "cat_reservations (fst (expire_loop keep index all s)) = cat_reservations s"
  "cat_restoreRefs (fst (expire_loop keep index all s)) = cat_restoreRefs s"
  "cat_maxChunkCount (fst (expire_loop keep index all s)) = cat_maxChunkCount s"
  by (induction keep index all s rule: expire_loop.induct) (auto simp: Let_def split_beta)

lemma expire_loop_store:
  assumes "distinct (map s_ID all)"
    and "\<And>sn. sn \<in> set all \<Longrightarrow> mget (cat_snapshots s) (s_ID sn) = Some sn"
  shows "mget (cat_snapshots (fst (expire_loop keep index all s))) i =
     (if i \<in> set (snd (expire_loop keep index all s))
      then map_option (\<lambda>sn. sn\<lparr>s_State := SnapshotExpired\<rparr>) (mget (cat_snapshots s) i)
      else mget (cat_snapshots s) i)"
  using assms
proof (induction all arbitrary: index s)
  case (Cons sn rest)
  show ?case
  proof (cases "index < keep \<or> catalog_HasRestoreRef (s_ID sn) s")
    case True
    with Cons show ?thesis by simp
  next
    case False
    let ?s = "s\<lparr>cat_snapshots := mput (cat_snapshots s) (s_ID sn) (sn\<lparr>s_State := SnapshotExpired\<rparr>)\<rparr>"
    have notin: "s_ID sn \<notin> set (snd (expire_loop keep (index + 1) rest ?s))"
      using Cons.prems(1) by (auto simp: expire_loop_ids expirable_def dest: in_set_dropD)
    have "mget (cat_snapshots ?s) (s_ID x) = Some x" if "x \<in> set rest" for x
      using Cons.prems that by (auto simp: gomap_simps image_iff)
    then have "mget (cat_snapshots (fst (expire_loop keep (index + 1) rest ?s))) i =
       (if i \<in> set (snd (expire_loop keep (index + 1) rest ?s))
        then map_option (\<lambda>sn. sn\<lparr>s_State := SnapshotExpired\<rparr>) (mget (cat_snapshots ?s) i)
        else mget (cat_snapshots ?s) i)"
      using Cons.prems(1) by (intro Cons.IH) auto
    with False notin Cons.prems(2) [of sn] show ?thesis
      by (auto simp: Let_def split_beta gomap_simps)
  qed
qed simp

lemma expire_order_all:
  assumes "catalog_inv s" and "expire_order s all"
  shows "distinct (map s_ID all)"
    and "sn \<in> set all \<longleftrightarrow> mget (cat_snapshots s) (s_ID sn) = Some sn"
proof -
  have key: "\<And>k v. mget (cat_snapshots s) k = Some v \<Longrightarrow> s_ID v = k"
    using assms(1) by (simp add: catalog_inv_def)
  have "mset (map s_ID all) = mset (map s_ID (mvals (cat_snapshots s)))"
    using assms(2) by (simp add: expire_order_def multiset.map_comp)
  from mset_eq_imp_distinct_iff [OF this] show "distinct (map s_ID all)"
    using distinct_mvals [of "cat_snapshots s" s_ID] key by blast
  have "set all = set (mvals (cat_snapshots s))"
    using assms(2) unfolding expire_order_def by (blast dest: mset_eq_setD)
  then have "sn \<in> set all \<longleftrightarrow> (\<exists>k. mget (cat_snapshots s) k = Some sn)"
    by (simp only: mvals_set)
  then show "sn \<in> set all \<longleftrightarrow> mget (cat_snapshots s) (s_ID sn) = Some sn"
    by (auto dest: key)
qed

text \<open>The facts about one call of \<open>ExpireUnprotected\<close>.\<close>

lemma expire_ids_mem:
  "i \<in> set (snd (catalog_ExpireUnprotected all keep s)) \<longleftrightarrow>
     (\<exists>sn \<in> set (drop (nat keep) all). s_ID sn = i \<and> \<not> catalog_HasRestoreRef i s)"
  by (auto simp: catalog_ExpireUnprotected_def split_beta expire_loop_ids expirable_def)

lemma expire_frame:
  "fst (catalog_ExpireUnprotected all keep s) =
     s\<lparr>cat_snapshots := cat_snapshots (fst (catalog_ExpireUnprotected all keep s))\<rparr>"
  using expire_loop_frame [of keep 0 all s]
  by (simp add: catalog_ExpireUnprotected_def split_beta)

lemma expire_ids_sorted:
  assumes "catalog_inv s" and "expire_order s all"
  shows "sorted (snd (catalog_ExpireUnprotected all keep s))
    \<and> distinct (snd (catalog_ExpireUnprotected all keep s))"
proof -
  have "distinct (map s_ID (expirable keep 0 all s))"
    using expire_order_all(1) [OF assms] unfolding expirable_def
    by (metis distinct_drop distinct_map_filter drop_map)
  then show ?thesis
    by (simp add: catalog_ExpireUnprotected_def split_beta expire_loop_ids)
qed

lemma expire_ids_unprotected:
  assumes "catalog_inv s" and "expire_order s all"
  shows "\<forall>i \<in> set (snd (catalog_ExpireUnprotected all keep s)).
    mget (cat_snapshots s) i \<noteq> None \<and> \<not> catalog_HasRestoreRef i s"
proof
  fix i
  assume "i \<in> set (snd (catalog_ExpireUnprotected all keep s))"
  then obtain sn where "sn \<in> set all" "s_ID sn = i" "\<not> catalog_HasRestoreRef i s"
    unfolding expire_ids_mem by (meson in_set_dropD)
  then show "mget (cat_snapshots s) i \<noteq> None \<and> \<not> catalog_HasRestoreRef i s"
    using expire_order_all(2) [OF assms, of sn] by simp
qed

lemma expire_store:
  assumes "catalog_inv s" and "expire_order s all"
  shows "\<forall>i. mget (cat_snapshots (fst (catalog_ExpireUnprotected all keep s))) i =
     (if i \<in> set (snd (catalog_ExpireUnprotected all keep s))
      then map_option (\<lambda>sn. sn\<lparr>s_State := SnapshotExpired\<rparr>) (mget (cat_snapshots s) i)
      else mget (cat_snapshots s) i)"
  using expire_loop_store [OF expire_order_all(1) [OF assms], of s keep 0]
    expire_order_all(2) [OF assms]
  by (simp add: catalog_ExpireUnprotected_def split_beta)

lemma expire_spared:
  assumes "catalog_inv s" and "expire_order s all"
    and "mget (cat_snapshots s) i = Some a" and "\<not> catalog_HasRestoreRef i s"
    and "i \<notin> set (snd (catalog_ExpireUnprotected all keep s))"
  shows "a \<in> set (take (nat keep) all) \<and> s_ID a = i"
proof -
  have a: "s_ID a = i" using assms(1,3) by (simp add: catalog_inv_def)
  then have "a \<in> set (take (nat keep) all) \<union> set (drop (nat keep) all)"
    using expire_order_all(2) [OF assms(1,2)] assms(3) by (metis append_take_drop_id set_append)
  with a assms(4,5) show ?thesis unfolding expire_ids_mem by blast
qed

lemma expire_few:
  assumes "catalog_inv s" and "expire_order s all"
  shows "card {i. mget (cat_snapshots s) i \<noteq> None \<and> \<not> catalog_HasRestoreRef i s
    \<and> i \<notin> set (snd (catalog_ExpireUnprotected all keep s))} \<le> nat keep" (is "card ?S \<le> _")
proof -
  have "?S \<subseteq> s_ID ` set (take (nat keep) all)"
    using expire_spared [OF assms] by fastforce
  then have "card ?S \<le> card (set (take (nat keep) all))"
    by (rule surj_card_le [rotated]) simp
  also have "\<dots> \<le> nat keep" using card_length [of "take (nat keep) all"] by simp
  finally show ?thesis .
qed

lemma expire_newest_spared:
  assumes "catalog_inv s" and "expire_order s all"
    and "mget (cat_snapshots s) i = Some a" and "\<not> catalog_HasRestoreRef i s"
    and "i \<notin> set (snd (catalog_ExpireUnprotected all keep s))"
    and "mget (cat_snapshots s) j = Some b" and "j \<in> set (snd (catalog_ExpireUnprotected all keep s))"
  shows "\<not> s_CreatedAt a < s_CreatedAt b"
proof -
  have "sorted_wrt (\<lambda>a b. \<not> s_CreatedAt a < s_CreatedAt b) (take (nat keep) all @ drop (nat keep) all)"
    using assms(2) by (simp add: expire_order_def)
  moreover have "a \<in> set (take (nat keep) all)" using expire_spared [OF assms(1-5)] by simp
  moreover obtain sn where sn: "sn \<in> set (drop (nat keep) all)" "s_ID sn = j"
    using assms(7) unfolding expire_ids_mem by blast
  moreover have "sn = b"
    using sn assms(6) expire_order_all(2) [OF assms(1,2), of sn] by (auto dest: in_set_dropD)
  ultimately show ?thesis unfolding sorted_wrt_append by blast
qed

text \<open>Whatever is expired, \<open>keep\<close> other snapshots that are not older stand before it.\<close>

lemma expire_keeps_newest:
  assumes "catalog_inv s" and "expire_order s all"
    and "i \<in> set (snd (catalog_ExpireUnprotected all keep s))" and "mget (cat_snapshots s) i = Some a"
  shows "nat keep \<le> card {j. j \<noteq> i \<and> (\<exists>b. mget (cat_snapshots s) j = Some b \<and> \<not> s_CreatedAt b < s_CreatedAt a)}"
    (is "_ \<le> card ?S")
proof -
  let ?new = "take (nat keep) all" and ?old = "drop (nat keep) all"
  obtain sn where sn: "sn \<in> set ?old" "s_ID sn = i" using assms(3) unfolding expire_ids_mem by blast
  then have a: "sn = a" using assms(4) expire_order_all(2) [OF assms(1,2), of sn] by (auto dest: in_set_dropD)
  have d: "distinct (map s_ID ?new @ map s_ID ?old)"
    using expire_order_all(1) [OF assms(1,2)] by (simp flip: map_append)
  have "sorted_wrt (\<lambda>a b. \<not> s_CreatedAt a < s_CreatedAt b) (?new @ ?old)"
    using assms(2) by (simp add: expire_order_def)
  then have "\<not> s_CreatedAt b < s_CreatedAt a" if "b \<in> set ?new" for b
    using that sn a unfolding sorted_wrt_append by blast
  moreover have "mget (cat_snapshots s) (s_ID b) = Some b" if "b \<in> set ?new" for b
    using that expire_order_all(2) [OF assms(1,2), of b] by (auto dest: in_set_takeD)
  moreover have "s_ID b \<noteq> i" if "b \<in> set ?new" for b using that d sn by auto
  ultimately have sub: "set (map s_ID ?new) \<subseteq> ?S" by auto
  have "nat keep < length all" using sn(1) by (cases "nat keep < length all") simp_all
  then have "nat keep = card (set (map s_ID ?new))" using d by (simp add: distinct_card del: set_map)
  also have "finite ?S" by (rule finite_subset [OF _ finite_dom_mget [of "cat_snapshots s"]]) auto
  then have "card (set (map s_ID ?new)) \<le> card ?S" using sub by (rule card_mono)
  finally show ?thesis .
qed

lemma catalog_inv_ExpireUnprotected:
  assumes "catalog_inv s" and "expire_order s all"
  shows "catalog_inv (fst (catalog_ExpireUnprotected all keep s))"
proof -
  let ?t = "fst (catalog_ExpireUnprotected all keep s)"
  have frame: "cat_staged ?t = cat_staged s" "cat_restoreRefs ?t = cat_restoreRefs s"
    "cat_maxChunkCount ?t = cat_maxChunkCount s"
    using expire_loop_frame [of keep 0 all s]
    by (simp_all add: catalog_ExpireUnprotected_def split_beta)
  note store = expire_store [OF assms, of keep, THEN spec]
  show ?thesis
    using assms(1) unfolding catalog_inv_def store frame by (auto split: if_splits)
qed

section \<open>Reachable catalogs\<close>

inductive catalog_reach :: "int \<Rightarrow> CatalogStore \<Rightarrow> bool" for n where
  start: "catalog_reach n (catalog_New n)"
| reserve: "catalog_reach n s \<Longrightarrow> catalog_reach n (fst (catalog_ReserveDigest op d s))"
| stage: "catalog_reach n s \<Longrightarrow> catalog_reach n (fst (catalog_StageChunk op c s))"
| release: "catalog_reach n s \<Longrightarrow> catalog_reach n (catalog_ReleaseDigest op d s)"
| forget: "catalog_reach n s \<Longrightarrow> catalog_reach n (catalog_ForgetOperation op s)"
| commit: "catalog_reach n s \<Longrightarrow> catalog_reach n (fst (catalog_CommitSnapshot sn s))"
| set_state: "catalog_reach n s \<Longrightarrow> catalog_reach n (fst (catalog_SetState i g st s))"
| add_ref: "catalog_reach n s \<Longrightarrow> catalog_reach n (catalog_AddRestoreReference p i s)"
| remove_ref: "catalog_reach n s \<Longrightarrow> catalog_reach n (fst (catalog_RemoveRestoreReference p i s))"
| expire: "\<lbrakk> catalog_reach n s; expire_order s all \<rbrakk>
    \<Longrightarrow> catalog_reach n (fst (catalog_ExpireUnprotected all keep s))"

lemmas catalog_inv_intros =
  catalog_inv_New catalog_inv_ReserveDigest catalog_inv_StageChunk catalog_inv_ReleaseDigest
  catalog_inv_ForgetOperation catalog_inv_CommitSnapshot catalog_inv_SetState
  catalog_inv_AddRestoreReference catalog_inv_RemoveRestoreReference catalog_inv_ExpireUnprotected

lemma catalog_reach_inv: "catalog_reach n s \<Longrightarrow> catalog_inv s"
  by (induction rule: catalog_reach.induct) (simp_all add: catalog_inv_intros)

section \<open>The last verified full snapshot\<close>

definition fullCandidate :: "u64 \<Rightarrow> Snapshot \<Rightarrow> bool" where
  "fullCandidate before sn \<longleftrightarrow>
     s_Full sn \<and> s_State sn = SnapshotVerified \<and> s_Generation sn < before"

lemma lastFull_loop_Some:
  "(case sel of None \<Rightarrow> True | Some b \<Rightarrow> fullCandidate before b) \<Longrightarrow>
   (case lastFull_loop before sel xs of
      None \<Rightarrow> sel = None \<and> (\<forall>x \<in> set xs. \<not> fullCandidate before x)
    | Some r \<Rightarrow> (r \<in> set xs \<or> sel = Some r) \<and> fullCandidate before r
        \<and> (\<forall>x \<in> set xs \<union> set_option sel. fullCandidate before x \<longrightarrow> s_Generation x \<le> s_Generation r))"
proof (induction xs arbitrary: sel)
  case (Cons x xs)
  show ?case
  proof (cases "fullCandidate before x")
    case False
    then have e: "lastFull_loop before sel (x # xs) = lastFull_loop before sel xs"
      by (auto simp: fullCandidate_def not_le)
    from Cons.IH [OF Cons.prems] show ?thesis
      unfolding e using False by (auto split: option.splits)
  next
    case True
    let ?sel = "case sel of None \<Rightarrow> Some x
      | Some b \<Rightarrow> if s_Generation x > s_Generation b then Some x else sel"
    have e: "lastFull_loop before sel (x # xs) = lastFull_loop before ?sel xs"
      using True by (auto simp: fullCandidate_def not_le split: option.split)
    have "case ?sel of None \<Rightarrow> True | Some b \<Rightarrow> fullCandidate before b"
      using True Cons.prems by (auto split: option.splits)
    from Cons.IH [OF this] show ?thesis
      unfolding e using True Cons.prems
      by (auto split: option.splits if_splits intro: order_trans less_imp_le)
  qed
qed (auto split: option.splits)

section \<open>Restore references\<close>

text \<open>The references as a set of pairs of plan and snapshot.\<close>

definition refs_abs :: "CatalogStore \<Rightarrow> (string \<times> string) set" where
  "refs_abs s = {(p, i). mget (mgetd mempty (cat_restoreRefs s) i) p \<noteq> None}"

lemma HasRestoreRef_abs: "catalog_HasRestoreRef i s \<longleftrightarrow> (\<exists>p. (p, i) \<in> refs_abs s)"
  using mget_empty_iff [of "mgetd mempty (cat_restoreRefs s) i"]
  by (auto simp: catalog_HasRestoreRef_def refs_abs_def)

lemma AddRestoreReference_abs: "refs_abs (catalog_AddRestoreReference p i s) = insert (p, i) (refs_abs s)"
  by (auto simp: refs_abs_def catalog_AddRestoreReference_def Let_def gomap_simps split: if_splits)

lemma RemoveRestoreReference_abs:
  "refs_abs (fst (catalog_RemoveRestoreReference p i s)) = refs_abs s - {(p, i)}"
  "snd (catalog_RemoveRestoreReference p i s) \<longleftrightarrow> (p, i) \<in> refs_abs s"
proof -
  let ?m = "mgetd mempty (cat_restoreRefs s) i"
  have "mget ?m q = None" if "entries (mdel ?m p) = []" and "q \<noteq> p" for q
    using that mget_empty_iff [of "mdel ?m p"] by (simp add: gomap_simps) metis
  then show "refs_abs (fst (catalog_RemoveRestoreReference p i s)) = refs_abs s - {(p, i)}"
    by (auto simp: refs_abs_def catalog_RemoveRestoreReference_def Let_def gomap_simps
        split: if_splits)
  show "snd (catalog_RemoveRestoreReference p i s) \<longleftrightarrow> (p, i) \<in> refs_abs s"
    by (auto simp: refs_abs_def catalog_RemoveRestoreReference_def Let_def)
qed

section \<open>Properties\<close>

text \<open>
  C24: in every reachable catalog no operation stages more chunks than the configured maximum, and
  every published snapshot has at least one chunk and at most that many, in strictly increasing
  order of their indexes, under its own id.
\<close>

theorem catalog_bounded_and_ordered:
  assumes "catalog_reach n s"
  shows "(\<forall>op. int (mlen (mgetd mempty (cat_staged s) op)) \<le> cat_maxChunkCount s)
   \<and> (\<forall>i sn. catalog_Snapshot i s = Some sn \<longrightarrow>
        s_ID sn = i \<and> 1 \<le> length (s_Chunks sn) \<and> int (length (s_Chunks sn)) \<le> cat_maxChunkCount s
        \<and> sorted_wrt (<) (map c_Index (s_Chunks sn)))"
proof -
  have inv: "catalog_inv s" using assms by (rule catalog_reach_inv)
  have "\<forall>i sn. mget (cat_snapshots s) i = Some sn \<longrightarrow>
      s_ID sn = i \<and> 1 \<le> length (s_Chunks sn) \<and> int (length (s_Chunks sn)) \<le> cat_maxChunkCount s
      \<and> sorted_wrt (<) (map c_Index (s_Chunks sn))"
    using inv by (auto simp: catalog_inv_def Suc_le_eq)
  with staged_inv(2) [OF inv] show ?thesis by simp
qed

definition chunk_of :: "int \<Rightarrow> string \<Rightarrow> Chunk" where
  "chunk_of i d = \<lparr>c_Index = i, c_Digest = d, c_Data = []\<rparr>"

definition snap_of :: "string \<Rightarrow> string \<Rightarrow> u64 \<Rightarrow> int \<Rightarrow> Snapshot" where
  "snap_of i op g t = \<lparr>s_ID = i, s_BaseID = [], s_Operation = op, s_Generation = g, s_Full = True,
     s_State = SnapshotStaged, s_Metadata = mempty, s_Chunks = [], s_CreatedAt = Time t UTC\<rparr>"

text \<open>A catalog with one snapshot, reached by staging two chunks and committing.\<close>

definition catalog_example :: CatalogStore where
  "catalog_example =
     fst (catalog_CommitSnapshot (snap_of ''s'' ''op'' 1 5)
       (fst (catalog_StageChunk ''op'' (chunk_of 1 ''a'')
         (fst (catalog_StageChunk ''op'' (chunk_of 2 ''b'') (catalog_New 4))))))"

lemma catalog_example_reach: "catalog_reach 4 catalog_example"
  unfolding catalog_example_def by (intro catalog_reach.intros)

lemma catalog_example_snapshots:
  "entries (cat_snapshots catalog_example) =
     [(''s'', (snap_of ''s'' ''op'' 1 5)\<lparr>s_State := SnapshotPublished,
        s_Chunks := [chunk_of 1 ''a'', chunk_of 2 ''b'']\<rparr>)]"
  by (simp add: catalog_example_def catalog_defs Let_def chunk_of_def snap_of_def
      orderedChunks_def entries_mput mlen_mput)

lemma catalog_bounded_and_ordered_witness:
  "catalog_reach 4 catalog_example
   \<and> int (mlen (mgetd mempty (cat_staged catalog_example) ''op'')) \<le> cat_maxChunkCount catalog_example
   \<and> (\<exists>sn. catalog_Snapshot ''s'' catalog_example = Some sn)"
  using catalog_bounded_and_ordered [OF catalog_example_reach] catalog_example_reach
  by (simp add: mget_conv_map_of catalog_example_snapshots)

text \<open>
  C23: \<open>CommitSnapshot\<close> on every branch. An id that is taken and an operation with nothing
  staged are refused and change nothing. Otherwise the snapshot is published with exactly the
  staged chunks, the operation's staging and all its digest reservations are gone, and the
  staging and reservations of other operations and all other snapshots are as before.
\<close>

theorem catalog_commit_spec:
  "(mget (cat_snapshots s) (s_ID sn) \<noteq> None \<longrightarrow> catalog_CommitSnapshot sn s = (s, Some ErrConflict))
   \<and> (mget (cat_snapshots s) (s_ID sn) = None \<and> mlen (mgetd mempty (cat_staged s) (s_Operation sn)) = 0
        \<longrightarrow> catalog_CommitSnapshot sn s = (s, Some ErrNotFound))
   \<and> (mget (cat_snapshots s) (s_ID sn) = None \<and> 0 < mlen (mgetd mempty (cat_staged s) (s_Operation sn))
        \<longrightarrow> (let (s', e) = catalog_CommitSnapshot sn s in e = None
          \<and> (\<exists>sn'. catalog_Snapshot (s_ID sn) s' = Some sn' \<and> s_State sn' = SnapshotPublished
               \<and> s_Generation sn' = s_Generation sn \<and> s_Metadata sn' = s_Metadata sn
               \<and> set (s_Chunks sn') = ran (mget (mgetd mempty (cat_staged s) (s_Operation sn))))
          \<and> (\<forall>i. i \<noteq> s_ID sn \<longrightarrow> catalog_Snapshot i s' = catalog_Snapshot i s)
          \<and> mget (cat_staged s') (s_Operation sn) = None
          \<and> (\<forall>op. op \<noteq> s_Operation sn \<longrightarrow> mget (cat_staged s') op = mget (cat_staged s) op)
          \<and> (\<forall>d. mget (cat_reservations s') d =
               (if mget (cat_reservations s) d = Some (s_Operation sn) then None
                else mget (cat_reservations s) d))))"
proof -
  have "set (orderedChunks m) = ran (mget m)" for m
    by (auto simp: set_orderedChunks ran_def)
  then show ?thesis
    by (auto simp: catalog_CommitSnapshot_def Let_def gomap_simps dropOwner_def split: option.split)
qed

lemma catalog_commit_witness:
  "snd (catalog_CommitSnapshot (snap_of ''s'' ''op2'' 2 6) catalog_example) = Some ErrConflict
   \<and> snd (catalog_CommitSnapshot (snap_of ''t'' ''op'' 2 6) catalog_example) = Some ErrNotFound"
proof -
  have "mget (cat_snapshots catalog_example) ''s'' \<noteq> None"
    and "mget (cat_snapshots catalog_example) ''t'' = None"
    by (simp_all add: mget_conv_map_of catalog_example_snapshots)
  moreover have "mlen (mgetd mempty (cat_staged catalog_example) ''op'') = 0"
    by (simp add: catalog_example_def catalog_defs Let_def chunk_of_def snap_of_def mlen_mput)
  ultimately show ?thesis
    using catalog_commit_spec [of catalog_example "snap_of ''s'' ''op2'' 2 6"]
      catalog_commit_spec [of catalog_example "snap_of ''t'' ''op'' 2 6"]
    by (simp add: snap_of_def)
qed

text \<open>
  C6: retention keeps the newest and what is being restored, and expires all the rest, whichever order
  the sort leaves snapshots of the same age in. In the list of all snapshots, newest first, exactly
  those after the first \<open>keep\<close> that have no restore reference are expired, and their ids are
  returned, sorted and without repetition. So nothing is expired unless at least \<open>keep\<close> other stored
  snapshots are not older; at most \<open>keep\<close> snapshots without a reference are spared, and none of
  them is older than an expired one. The expired ones change their state only, and no other snapshot,
  staging, reservation or reference changes.
\<close>

theorem catalog_retention:
  assumes "catalog_reach n s" and "expire_order s all"
    and "catalog_ExpireUnprotected all keep s = (s', ids)"
  shows "sorted ids \<and> distinct ids
   \<and> set ids = s_ID ` {sn \<in> set (drop (nat keep) all). \<not> catalog_HasRestoreRef (s_ID sn) s}
   \<and> (\<forall>i a. i \<in> set ids \<and> catalog_Snapshot i s = Some a \<longrightarrow>
        nat keep \<le> card {j. j \<noteq> i \<and> (\<exists>b. catalog_Snapshot j s = Some b \<and> \<not> s_CreatedAt b < s_CreatedAt a)})
   \<and> (\<forall>i \<in> set ids. catalog_Snapshot i s \<noteq> None \<and> \<not> catalog_HasRestoreRef i s)
   \<and> (\<forall>i. catalog_Snapshot i s' =
        (if i \<in> set ids then map_option (\<lambda>sn. sn\<lparr>s_State := SnapshotExpired\<rparr>) (catalog_Snapshot i s)
         else catalog_Snapshot i s))
   \<and> s' = s\<lparr>cat_snapshots := cat_snapshots s'\<rparr>
   \<and> card {i. catalog_Snapshot i s \<noteq> None \<and> \<not> catalog_HasRestoreRef i s \<and> i \<notin> set ids} \<le> nat keep
   \<and> (\<forall>i j a b. catalog_Snapshot i s = Some a \<and> \<not> catalog_HasRestoreRef i s \<and> i \<notin> set ids
        \<and> catalog_Snapshot j s = Some b \<and> j \<in> set ids \<longrightarrow> \<not> s_CreatedAt a < s_CreatedAt b)"
proof -
  have inv: "catalog_inv s" using assms(1) by (rule catalog_reach_inv)
  have ids: "ids = snd (catalog_ExpireUnprotected all keep s)"
    and s': "s' = fst (catalog_ExpireUnprotected all keep s)" using assms(3) by simp_all
  have exact: "set ids = s_ID ` {sn \<in> set (drop (nat keep) all). \<not> catalog_HasRestoreRef (s_ID sn) s}"
    unfolding ids by (auto simp: expire_ids_mem)
  have newest: "\<forall>i j a b. mget (cat_snapshots s) i = Some a \<and> \<not> catalog_HasRestoreRef i s \<and> i \<notin> set ids
        \<and> mget (cat_snapshots s) j = Some b \<and> j \<in> set ids \<longrightarrow> \<not> s_CreatedAt a < s_CreatedAt b"
    unfolding ids using expire_newest_spared [OF inv assms(2)] by blast
  have kept: "\<forall>i a. i \<in> set ids \<and> mget (cat_snapshots s) i = Some a \<longrightarrow>
      nat keep \<le> card {j. j \<noteq> i \<and> (\<exists>b. mget (cat_snapshots s) j = Some b \<and> \<not> s_CreatedAt b < s_CreatedAt a)}"
    unfolding ids using expire_keeps_newest [OF inv assms(2)] by blast
  note facts = expire_ids_unprotected [OF inv assms(2), of keep, folded ids]
    expire_store [OF inv assms(2), of keep, folded ids s'] expire_frame [of all keep s, folded s']
    expire_few [OF inv assms(2), of keep, folded ids]
  show ?thesis
    unfolding catalog_Snapshot_mget using expire_ids_sorted [OF inv assms(2), of keep, folded ids]
    by (intro conjI exact newest kept facts) simp_all
qed

text \<open>With a second, newer snapshot, keeping one expires the older.\<close>

definition catalog_two :: CatalogStore where
  "catalog_two =
     fst (catalog_CommitSnapshot (snap_of ''t'' ''op'' 2 9)
       (fst (catalog_StageChunk ''op'' (chunk_of 1 ''c'') catalog_example)))"

lemma catalog_two_reach: "catalog_reach 4 catalog_two"
  unfolding catalog_two_def by (intro catalog_reach.intros catalog_example_reach)

lemma catalog_two_eq:
  "entries (cat_snapshots catalog_two) = entries (cat_snapshots catalog_example) @
     [(''t'', (snap_of ''t'' ''op'' 2 9)\<lparr>s_State := SnapshotPublished, s_Chunks := [chunk_of 1 ''c'']\<rparr>)]"
  "cat_restoreRefs catalog_two = mempty"
  by (simp_all add: catalog_two_def catalog_example_def catalog_defs Let_def chunk_of_def snap_of_def
      orderedChunks_def entries_mput mlen_mput)

lemma catalog_retention_witness:
  "let all = rev (mvals (cat_snapshots catalog_two)); (s', ids) = catalog_ExpireUnprotected all 1 catalog_two
   in ids = [''s''] \<and> catalog_Snapshot ''t'' s' = catalog_Snapshot ''t'' catalog_two
     \<and> catalog_Snapshot ''s'' s' =
       map_option (\<lambda>sn. sn\<lparr>s_State := SnapshotExpired\<rparr>) (catalog_Snapshot ''s'' catalog_two)"
proof -
  let ?all = "rev (mvals (cat_snapshots catalog_two))"
  obtain s' ids where x: "catalog_ExpireUnprotected ?all 1 catalog_two = (s', ids)" by fastforce
  have o: "expire_order catalog_two ?all"
    by (simp add: expire_order_def catalog_two_eq catalog_example_snapshots snap_of_def)
  note r = catalog_retention [OF catalog_two_reach o x]
  have "set ids = {''s''}"
    using r by (simp add: catalog_two_eq catalog_example_snapshots snap_of_def catalog_HasRestoreRef_def)
  moreover have "distinct ids" using r by (elim conjE)
  ultimately have ids: "ids = [''s'']" by (cases ids) (auto simp: subset_singleton_iff)
  have "\<forall>i. catalog_Snapshot i s' = (if i \<in> set ids
      then map_option (\<lambda>sn. sn\<lparr>s_State := SnapshotExpired\<rparr>) (catalog_Snapshot i catalog_two)
      else catalog_Snapshot i catalog_two)"
    using r by (elim conjE)
  then show ?thesis unfolding ids by (simp add: x ids)
qed

text \<open>
  \<open>LastVerifiedFull\<close> returns a stored full, verified snapshot of a generation below the
  bound, of the highest such generation, and reports nothing only if there is none, in whatever
  order the map is visited.
\<close>

theorem catalog_last_verified_full:
  assumes "ranges it (cat_snapshots s)"
  shows "case catalog_LastVerifiedFull it before of
      None \<Rightarrow> \<forall>i sn. catalog_Snapshot i s = Some sn \<longrightarrow> \<not> fullCandidate before sn
    | Some r \<Rightarrow> (\<exists>i. catalog_Snapshot i s = Some r) \<and> fullCandidate before r
        \<and> (\<forall>i sn. catalog_Snapshot i s = Some sn \<and> fullCandidate before sn
             \<longrightarrow> s_Generation sn \<le> s_Generation r)"
proof -
  have mem: "sn \<in> set (map snd it) \<longleftrightarrow> (\<exists>i. mget (cat_snapshots s) i = Some sn)" for sn
    using ranges_mem [OF assms] by force
  have clone: "map_option cloneSnapshot r = r" for r
    by (cases r) simp_all
  have best: "case lastFull_loop before None (map snd it) of
      None \<Rightarrow> \<forall>x \<in> set (map snd it). \<not> fullCandidate before x
    | Some r \<Rightarrow> r \<in> set (map snd it) \<and> fullCandidate before r
        \<and> (\<forall>x \<in> set (map snd it). fullCandidate before x \<longrightarrow> s_Generation x \<le> s_Generation r)"
    using lastFull_loop_Some [where sel = None and before = before and xs = "map snd it"]
    by (simp split: option.splits)
  show ?thesis
  proof (cases "lastFull_loop before None (map snd it)")
    case None
    then show ?thesis
      using best mem unfolding catalog_LastVerifiedFull_def clone catalog_Snapshot_mget
      by (simp only: option.simps) blast
  next
    case (Some r)
    then show ?thesis
      using best mem unfolding catalog_LastVerifiedFull_def clone catalog_Snapshot_mget
      by (simp only: option.simps) blast
  qed
qed

lemma catalog_last_verified_full_witness:
  "let s = fst (catalog_SetState ''s'' 1 SnapshotVerified catalog_example) in
   \<exists>r. catalog_LastVerifiedFull (entries (cat_snapshots s)) 7 = Some r \<and> fullCandidate 7 r"
proof -
  let ?s = "fst (catalog_SetState ''s'' 1 SnapshotVerified catalog_example)"
  have "catalog_LastVerifiedFull (entries (cat_snapshots ?s)) 7 \<noteq> None"
    by (simp add: catalog_SetState_def mget_conv_map_of catalog_example_snapshots
        catalog_LastVerifiedFull_def snap_of_def entries_mput word_le_nat_alt)
  with catalog_last_verified_full [OF ranges_entries, of ?s 7] show ?thesis
    by (auto simp: Let_def split: option.splits)
qed

end
