(* ===== verification/Leases.thy ===== *)
theory Leases
  imports Model Contracts
begin

text \<open>
  Package \<open>lease\<close> (\<open>internal/lease/store.go\<close>): leases on named resources, each granted with
  a fencing epoch. The lemmas show when a lease is granted, that at most one holder validates, and
  that the epoch of an earlier grant never validates again once the resource was granted anew.
  Epochs are \<open>uint64\<close> and wrap, so the last statement is about runs of fewer than
  \<open>2 ^ 64\<close> operations.
\<close>

record LeaseStore =
  ls_leases :: "(string, Lease) gomap"
  ls_epochs :: "(string, u64) gomap"

definition lease_New :: LeaseStore where
  "lease_New = \<lparr>ls_leases = mempty, ls_epochs = mempty\<rparr>"

definition lease_Acquire ::
  "string \<Rightarrow> string \<Rightarrow> time \<Rightarrow> duration \<Rightarrow> LeaseStore \<Rightarrow> LeaseStore \<times> Lease result" where
  "lease_Acquire resource owner now ttl s =
     (if (case mget (ls_leases s) resource of
            None \<Rightarrow> False
          | Some current \<Rightarrow> \<not> l_Released current \<and> now < l_Deadline current)
      then (s, Inl ErrLeaseHeld)
      else let epoch = mgetd 0 (ls_epochs s) resource + 1;
               lease = \<lparr>l_Resource = resource, l_Owner = owner, l_Epoch = epoch,
                 l_Deadline = tAdd now ttl, l_Released = False\<rparr>
           in (s\<lparr>ls_epochs := mput (ls_epochs s) resource epoch,
                 ls_leases := mput (ls_leases s) resource lease\<rparr>, Inr lease))"

definition lease_Validate ::
  "string \<Rightarrow> string \<Rightarrow> u64 \<Rightarrow> time \<Rightarrow> LeaseStore \<Rightarrow> error option" where
  "lease_Validate resource owner epoch now s =
     (case mget (ls_leases s) resource of
        None \<Rightarrow> Some ErrLeaseFenced
      | Some lease \<Rightarrow>
          if l_Released lease \<or> l_Owner lease \<noteq> owner \<or> l_Epoch lease \<noteq> epoch
             \<or> \<not> now < l_Deadline lease
          then Some ErrLeaseFenced else None)"

definition lease_Release ::
  "string \<Rightarrow> string \<Rightarrow> u64 \<Rightarrow> LeaseStore \<Rightarrow> LeaseStore \<times> error option" where
  "lease_Release resource owner epoch s =
     (case mget (ls_leases s) resource of
        None \<Rightarrow> (s, Some ErrLeaseFenced)
      | Some lease \<Rightarrow>
          if l_Owner lease \<noteq> owner \<or> l_Epoch lease \<noteq> epoch \<or> l_Released lease
          then (s, Some ErrLeaseFenced)
          else (s\<lparr>ls_leases := mput (ls_leases s) resource (lease\<lparr>l_Released := True\<rparr>)\<rparr>, None))"

definition lease_Lease :: "string \<Rightarrow> LeaseStore \<Rightarrow> Lease option" where
  "lease_Lease resource s = mget (ls_leases s) resource"

datatype lease_op =
    LAcquire string string time duration
  | LRelease string string u64

fun lease_step :: "lease_op \<Rightarrow> LeaseStore \<Rightarrow> LeaseStore" where
  "lease_step (LAcquire r ow now ttl) s = fst (lease_Acquire r ow now ttl s)"
| "lease_step (LRelease r ow e) s = fst (lease_Release r ow e s)"

lemmas lease_defs [step_defs] =
  lease_New_def lease_Acquire_def lease_Validate_def lease_Release_def lease_Lease_def

section \<open>Epochs\<close>

text \<open>A stored lease carries the resource's current epoch.\<close>

definition lease_inv :: "LeaseStore \<Rightarrow> bool" where
  "lease_inv s \<longleftrightarrow> (\<forall>r l. mget (ls_leases s) r = Some l \<longrightarrow>
     l_Resource l = r \<and> l_Epoch l = mgetd 0 (ls_epochs s) r)"

lemma lease_inv_Acquire: "lease_inv s \<Longrightarrow> lease_inv (fst (lease_Acquire r ow now ttl s))"
  by (auto simp: lease_inv_def lease_Acquire_def Let_def gomap_simps)

lemma lease_inv_Release: "lease_inv s \<Longrightarrow> lease_inv (fst (lease_Release r ow e s))"
  by (auto simp: lease_inv_def lease_Release_def gomap_simps split: option.splits)

interpretation leases: invariant_machine lease_New lease_step lease_inv
proof
  show "lease_inv lease_New" by (simp add: lease_inv_def lease_New_def)
next
  fix s op
  assume "lease_inv s"
  then show "lease_inv (lease_step op s)"
    by (cases op) (simp_all add: lease_inv_Acquire lease_inv_Release)
qed

text \<open>How often \<open>Acquire\<close> succeeds on a resource in a run.\<close>

fun grants :: "string \<Rightarrow> lease_op list \<Rightarrow> LeaseStore \<Rightarrow> nat" where
  "grants r [] s = 0"
| "grants r (op # ops) s =
     (case op of
        LAcquire r' ow now ttl \<Rightarrow>
          if r' = r \<and> snd (lease_Acquire r' ow now ttl s) \<noteq> Inl ErrLeaseHeld then 1 else 0
      | LRelease _ _ _ \<Rightarrow> 0) + grants r ops (lease_step op s)"

lemma epoch_Acquire:
  "mgetd 0 (ls_epochs (fst (lease_Acquire r' ow now ttl s))) r =
     mgetd 0 (ls_epochs s) r
     + (if r' = r \<and> snd (lease_Acquire r' ow now ttl s) \<noteq> Inl ErrLeaseHeld then 1 else 0)"
  by (auto simp: lease_Acquire_def Let_def)

lemma epoch_Release:
  "ls_epochs (fst (lease_Release r ow e s)) = ls_epochs s"
  by (simp add: lease_Release_def split: option.split)

lemma epoch_run:
  "mgetd 0 (ls_epochs (fold lease_step ops s)) r = mgetd 0 (ls_epochs s) r + of_nat (grants r ops s)"
proof (induction ops arbitrary: s)
  case (Cons op ops)
  then show ?case
    by (cases op) (auto simp: epoch_Acquire epoch_Release)
qed simp

lemma grants_le: "grants r ops s \<le> length ops"
proof (induction ops arbitrary: s)
  case (Cons op ops)
  have "grants r ops (lease_step op s) \<le> length ops" by (rule Cons)
  then show ?case by (auto split: lease_op.split)
qed simp

lemma of_nat_u64_neq_0: "\<lbrakk> 0 < k; k < 2 ^ 64 \<rbrakk> \<Longrightarrow> (of_nat k :: u64) \<noteq> 0"
proof
  assume k: "0 < k" "k < 2 ^ 64" and "(of_nat k :: u64) = 0"
  then have "unat (of_nat k :: u64) = 0" by simp
  then show False using k by (simp add: unsigned_of_nat take_bit_eq_mod)
qed

lemma Validate_epoch:
  "\<lbrakk> lease_inv s; lease_Validate r ow e now s = None \<rbrakk> \<Longrightarrow> mgetd 0 (ls_epochs s) r = e"
  by (auto simp: lease_inv_def lease_Validate_def split: option.splits if_splits)

lemma Release_epoch:
  "\<lbrakk> lease_inv s; mgetd 0 (ls_epochs s) r \<noteq> e \<rbrakk> \<Longrightarrow> lease_Release r ow e s = (s, Some ErrLeaseFenced)"
  by (auto simp: lease_inv_def lease_Release_def split: option.splits)

lemma Acquire_Inr:
  assumes "lease_Acquire r ow now ttl s = (s', Inr l)"
  shows "l_Epoch l = mgetd 0 (ls_epochs s') r" and "mget (ls_leases s') r = Some l"
    and "l_Owner l = ow" and "\<not> l_Released l" and "l_Deadline l = tAdd now ttl"
  using assms by (auto simp: lease_Acquire_def Let_def gomap_simps split: if_splits)

section \<open>Properties\<close>

text \<open>
  C5: fencing. In any store reached from \<open>New\<close>, let \<open>Acquire\<close> grant a lease with epoch
  \<open>e\<close>. After any further run of fewer than \<open>2 ^ 64\<close> operations in which the same resource
  is granted again at least once, neither \<open>Validate\<close> nor \<open>Release\<close> accepts \<open>e\<close> any
  more, whoever presents it and whenever, and the refused \<open>Release\<close> changes nothing.
\<close>

theorem lease_fencing:
  assumes "lease_Acquire r ow now ttl (fold lease_step before lease_New) = (s, Inr l)"
    and "0 < grants r ops s" and "length ops < 2 ^ 64"
  shows "lease_Validate r ow' (l_Epoch l) now' (fold lease_step ops s) = Some ErrLeaseFenced
    \<and> lease_Release r ow' (l_Epoch l) (fold lease_step ops s) =
      (fold lease_step ops s, Some ErrLeaseFenced)"
proof -
  let ?t = "fold lease_step ops s"
  have "s = fst (lease_Acquire r ow now ttl (fold lease_step before lease_New))"
    using assms(1) by simp
  then have "lease_inv s"
    by (simp add: lease_inv_Acquire leases.inv_reached)
  then have inv: "lease_inv ?t" by (rule leases.inv_run)
  have "mgetd 0 (ls_epochs ?t) r = l_Epoch l + of_nat (grants r ops s)"
    using Acquire_Inr(1) [OF assms(1)] by (simp add: epoch_run)
  moreover have "(of_nat (grants r ops s) :: u64) \<noteq> 0"
    using assms(2,3) grants_le [of r ops s] by (intro of_nat_u64_neq_0) auto
  ultimately have ne: "mgetd 0 (ls_epochs ?t) r \<noteq> l_Epoch l" by simp
  have "lease_Validate r ow' (l_Epoch l) now' ?t \<noteq> None"
    using Validate_epoch [OF inv] ne by blast
  then have "lease_Validate r ow' (l_Epoch l) now' ?t = Some ErrLeaseFenced"
    by (auto simp: lease_Validate_def split: option.splits if_splits)
  with Release_epoch [OF inv ne] show ?thesis by blast
qed

lemma lease_fencing_witness:
  "\<exists>s l. lease_Acquire ''r'' ''a'' (Time 0 UTC) 10 lease_New = (s, Inr l)
     \<and> lease_Validate ''r'' ''a'' (l_Epoch l) (Time 5 UTC) s = None
     \<and> lease_Validate ''r'' ''a'' (l_Epoch l) (Time 25 UTC)
         (fold lease_step [LAcquire ''r'' ''b'' (Time 20 UTC) 10] s) = Some ErrLeaseFenced"
proof -
  let ?s = "fst (lease_Acquire ''r'' ''a'' (Time 0 UTC) 10 (fold lease_step [] lease_New))"
  let ?l = "\<lparr>l_Resource = ''r'', l_Owner = ''a'', l_Epoch = 1, l_Deadline = Time 10 UTC, l_Released = False\<rparr>"
  have a: "lease_Acquire ''r'' ''a'' (Time 0 UTC) 10 (fold lease_step [] lease_New) = (?s, Inr ?l)"
    by (simp add: lease_defs Let_def tAdd_def)
  have g: "0 < grants ''r'' [LAcquire ''r'' ''b'' (Time 20 UTC) 10] ?s"
    by (simp add: lease_defs Let_def tAdd_def)
  have "lease_Validate ''r'' ''a'' (l_Epoch ?l) (Time 5 UTC) ?s = None"
    by (simp add: lease_defs Let_def tAdd_def)
  moreover have "lease_Validate ''r'' ''a'' (l_Epoch ?l) (Time 25 UTC)
      (fold lease_step [LAcquire ''r'' ''b'' (Time 20 UTC) 10] ?s) = Some ErrLeaseFenced"
    using lease_fencing [OF a g] by simp
  ultimately show ?thesis using a by (metis fold_simps(1))
qed

text \<open>
  C22: a lease is granted exactly when nobody holds one: \<open>Acquire\<close> succeeds at a time if and
  only if at that time \<open>Validate\<close> accepts no owner and no epoch. A refused \<open>Acquire\<close>
  changes nothing, and a granted one makes the new owner, with the new epoch, the only one that
  validates before the deadline.
\<close>

theorem lease_exclusive:
  "((\<exists>l. snd (lease_Acquire r ow now ttl s) = Inr l) \<longleftrightarrow>
      (\<forall>ow' e. lease_Validate r ow' e now s = Some ErrLeaseFenced))
   \<and> (snd (lease_Acquire r ow now ttl s) = Inl ErrLeaseHeld \<longrightarrow> fst (lease_Acquire r ow now ttl s) = s)
   \<and> (\<forall>s' l. lease_Acquire r ow now ttl s = (s', Inr l) \<longrightarrow>
       (\<forall>ow' e t. lease_Validate r ow' e t s' = None \<longleftrightarrow>
          ow' = ow \<and> e = l_Epoch l \<and> t < tAdd now ttl))"
  by (auto simp: lease_Acquire_def lease_Validate_def Let_def gomap_simps split: option.split)

lemma lease_exclusive_witness:
  "snd (lease_Acquire ''r'' ''b'' (Time 5 UTC) 10 (fst (lease_Acquire ''r'' ''a'' (Time 0 UTC) 10 lease_New)))
     = Inl ErrLeaseHeld
   \<and> fst (lease_Acquire ''r'' ''b'' (Time 5 UTC) 10 (fst (lease_Acquire ''r'' ''a'' (Time 0 UTC) 10 lease_New)))
     = fst (lease_Acquire ''r'' ''a'' (Time 0 UTC) 10 lease_New)"
proof -
  let ?s = "fst (lease_Acquire ''r'' ''a'' (Time 0 UTC) 10 lease_New)"
  have "snd (lease_Acquire ''r'' ''b'' (Time 5 UTC) 10 ?s) = Inl ErrLeaseHeld"
    by (simp add: lease_defs Let_def tAdd_def)
  then show ?thesis using lease_exclusive [of "''r''" "''b''" "Time 5 UTC" 10 ?s] by blast
qed

end
