(* ===== verification/RetryQueue.thy ===== *)
theory RetryQueue
  imports Model Contracts
begin

text \<open>
  Package \<open>retry\<close> (\<open>internal/retry/queue.go\<close>): retry tasks by id, and for each snapshot the
  highest generation that was cancelled. Generations start at 1: the mark of a snapshot that
  was never cancelled reads 0, so a task of generation 0 is refused from the start.
\<close>

record Queue =
  q_tasks :: "(string, RetryTask) gomap"
  q_cancelled :: "(string, u64) gomap"

definition retry_New :: Queue where
  "retry_New = \<lparr>q_tasks = mempty, q_cancelled = mempty\<rparr>"

definition retry_Schedule :: "RetryTask \<Rightarrow> Queue \<Rightarrow> Queue \<times> error option" where
  "retry_Schedule task q =
     (if mgetd 0 (q_cancelled q) (t_SnapshotID task) \<ge> t_Generation task then (q, Some ErrCancelled)
      else (q\<lparr>q_tasks := mput (q_tasks q) (t_ID task) task\<rparr>, None))"

definition retry_Cancel :: "string \<Rightarrow> u64 \<Rightarrow> Queue \<Rightarrow> Queue" where
  "retry_Cancel snapshotID generation q =
     (let q1 = (if generation > mgetd 0 (q_cancelled q) snapshotID
                then q\<lparr>q_cancelled := mput (q_cancelled q) snapshotID generation\<rparr> else q)
      in q1\<lparr>q_tasks := mfilter (\<lambda>(id, task). \<not> (t_SnapshotID task = snapshotID
                            \<and> t_Generation task \<le> generation)) (q_tasks q1)\<rparr>)"

definition due_before :: "RetryTask \<Rightarrow> RetryTask \<Rightarrow> bool" where
  "due_before a b =
     (if tEqual (t_DueAt a) (t_DueAt b) then t_ID a < t_ID b else t_DueAt a < t_DueAt b)"

definition retry_Due :: "time \<Rightarrow> Queue \<Rightarrow> RetryTask list" where
  "retry_Due now q =
     sort_by due_before (filter (\<lambda>task. \<not> t_DueAt task > now
       \<and> mgetd 0 (q_cancelled q) (t_SnapshotID task) < t_Generation task) (mvals (q_tasks q)))"

definition retry_Complete :: "RetryTask \<Rightarrow> Queue \<Rightarrow> Queue" where
  "retry_Complete task q = q\<lparr>q_tasks := mdel (q_tasks q) (t_ID task)\<rparr>"

definition retry_RescheduleAfterFailure :: "RetryTask \<Rightarrow> time \<Rightarrow> Queue \<Rightarrow> Queue \<times> error option" where
  "retry_RescheduleAfterFailure task due q =
     (if mgetd 0 (q_cancelled q) (t_SnapshotID task) \<ge> t_Generation task
      then (q\<lparr>q_tasks := mdel (q_tasks q) (t_ID task)\<rparr>, Some ErrCancelled)
      else let task' = task\<lparr>t_Attempt := wrap64 (t_Attempt task + 1), t_DueAt := due\<rparr>
           in (q\<lparr>q_tasks := mput (q_tasks q) (t_ID task) task'\<rparr>, None))"

definition retry_Pending :: "string \<Rightarrow> Queue \<Rightarrow> nat" where
  "retry_Pending snapshotID q =
     length (filter (\<lambda>task. t_SnapshotID task = snapshotID) (mvals (q_tasks q)))"

lemmas retry_defs [step_defs] =
  retry_New_def retry_Schedule_def retry_Cancel_def retry_Complete_def
  retry_RescheduleAfterFailure_def

datatype retry_op =
    RSchedule RetryTask | RCancel string u64 | RComplete RetryTask | RReschedule RetryTask time

fun retry_step :: "retry_op \<Rightarrow> Queue \<Rightarrow> Queue" where
  "retry_step (RSchedule t) q = fst (retry_Schedule t q)"
| "retry_step (RCancel s g) q = retry_Cancel s g q"
| "retry_step (RComplete t) q = retry_Complete t q"
| "retry_step (RReschedule t d) q = fst (retry_RescheduleAfterFailure t d q)"

section \<open>The invariant\<close>

definition cancel_mark :: "Queue \<Rightarrow> string \<Rightarrow> u64" where
  "cancel_mark q snapshotID = mgetd 0 (q_cancelled q) snapshotID"

text \<open>Tasks are stored under their id and none of a cancelled generation is stored.\<close>

definition retry_ok :: "Queue \<Rightarrow> bool" where
  "retry_ok q \<longleftrightarrow> (\<forall>i t. mget (q_tasks q) i = Some t \<longrightarrow>
     t_ID t = i \<and> cancel_mark q (t_SnapshotID t) < t_Generation t)"

interpretation marks: monotone_store retry_step cancel_mark
  by unfold_locales
    (rename_tac q k op, case_tac op, auto simp: cancel_mark_def retry_defs Let_def)

interpretation queue: invariant_machine retry_New retry_step retry_ok
proof
  show "retry_ok retry_New" by (simp add: retry_ok_def retry_New_def)
next
  fix q op assume "retry_ok q"
  then show "retry_ok (retry_step op q)"
    by (cases op)
      (auto simp: retry_ok_def cancel_mark_def retry_defs Let_def gomap_simps not_le not_less
        split: option.splits if_splits dest: order.strict_trans1)
qed

text \<open>The comparison of \<open>Due\<close> is the order of the pairs of due instant and id.\<close>

definition due_key :: "RetryTask \<Rightarrow> int \<times> string" where
  "due_key t = (instant (t_DueAt t), t_ID t)"

lemma due_before_key: "due_before a b \<longleftrightarrow> due_key a < due_key b"
  by (auto simp: due_before_def due_key_def tEqual_def less_prod_def)

lemma retry_Due_sort:
  "retry_Due now q = sort_key due_key (filter (\<lambda>t. instant (t_DueAt t) \<le> instant now
     \<and> cancel_mark q (t_SnapshotID t) < t_Generation t) (mvals (q_tasks q)))"
  unfolding retry_Due_def cancel_mark_def
  by (simp add: sort_by_keyI [where k = due_key] due_before_key not_less)

lemma distinct_due: "retry_ok q \<Longrightarrow> distinct (map due_key (mvals (q_tasks q)))"
proof -
  assume "retry_ok q"
  then have "distinct (map t_ID (mvals (q_tasks q)))"
    by (intro distinct_mvals) (auto simp: retry_ok_def)
  then have "distinct (map snd (map due_key (mvals (q_tasks q))))"
    by (simp add: due_key_def comp_def)
  then show ?thesis by (simp only: distinct_map)
qed

section \<open>Properties\<close>

text \<open>
  C27: once generation \<open>g\<close> of a snapshot has been cancelled, no later sequence of operations
  brings back a task of that snapshot and of a generation up to \<open>g\<close>: such a task is never due,
  is not pending, and scheduling or rescheduling it is refused with \<open>ErrCancelled\<close> without
  storing it.
\<close>

theorem retry_cancelled_stays_cancelled:
  assumes "q = fold retry_step later (retry_Cancel snap g (fold retry_step ops retry_New))"
    and "t_SnapshotID t = snap" and "t_Generation t \<le> g"
  shows "t \<notin> set (retry_Due now q) \<and> t \<notin> set (mvals (q_tasks q))
    \<and> retry_Schedule t q = (q, Some ErrCancelled)
    \<and> snd (retry_RescheduleAfterFailure t due q) = Some ErrCancelled
    \<and> q_tasks (fst (retry_RescheduleAfterFailure t due q)) = mdel (q_tasks q) (t_ID t)"
proof -
  let ?q0 = "fold retry_step ops retry_New"
  have "g \<le> cancel_mark (retry_Cancel snap g ?q0) snap"
    by (auto simp: cancel_mark_def retry_Cancel_def Let_def not_less)
  then have "g \<le> cancel_mark q snap" unfolding assms(1) by (rule marks.run_keeps_bound)
  then have m: "t_Generation t \<le> cancel_mark q (t_SnapshotID t)"
    using assms(2,3) by (auto intro: order_trans)
  have "retry_ok (retry_step (RCancel snap g) ?q0)"
    by (rule queue.inv_step) (rule queue.inv_reached)
  then have "retry_ok q" unfolding assms(1) by (intro queue.inv_run) simp
  then have "t \<notin> set (mvals (q_tasks q))"
    using m by (auto simp: retry_ok_def mvals_set not_le [symmetric] ran_def)
  then show ?thesis
    using m by (auto simp: retry_Due_sort retry_defs cancel_mark_def)
qed

definition sample_task :: "string \<Rightarrow> u64 \<Rightarrow> int \<Rightarrow> RetryTask" where
  "sample_task i g due = \<lparr>t_ID = i, t_SnapshotID = ''s'', t_Generation = g, t_Attempt = 0, t_DueAt = Time due UTC\<rparr>"

lemma retry_cancelled_witness:
  "retry_Due (Time 10 UTC) (fold retry_step [RSchedule (sample_task ''b'' 3 5)]
      (retry_Cancel ''s'' 2 (fold retry_step [RSchedule (sample_task ''a'' 2 0)] retry_New)))
     = [sample_task ''b'' 3 5]
   \<and> sample_task ''a'' 2 0 \<notin> set (retry_Due (Time 10 UTC) (fold retry_step [RSchedule (sample_task ''b'' 3 5)]
      (retry_Cancel ''s'' 2 (fold retry_step [RSchedule (sample_task ''a'' 2 0)] retry_New))))"
proof -
  let ?t = "sample_task ''a'' 2 0"
  have "t_SnapshotID ?t = ''s''" and "t_Generation ?t \<le> 2" by (simp_all add: sample_task_def)
  from retry_cancelled_stays_cancelled [OF refl this, of "Time 10 UTC" "[RSchedule (sample_task ''b'' 3 5)]"
      "[RSchedule (sample_task ''a'' 2 0)]"]
  show ?thesis
    by (simp add: retry_Due_def retry_defs Let_def sample_task_def entries_mput mgetd_def)
qed

text \<open>
  In every reachable queue, \<open>Due\<close> returns exactly the stored tasks that are due by
  \<open>now\<close>, each once, ordered by due time and then id; and this is the same list for every order
  in which the map can be visited.
\<close>

theorem retry_due_spec:
  assumes "q = fold retry_step ops retry_New"
  shows "set (retry_Due now q) = {t \<in> set (mvals (q_tasks q)). instant (t_DueAt t) \<le> instant now}
    \<and> distinct (retry_Due now q)
    \<and> sorted_wrt due_before (retry_Due now q)
    \<and> (\<forall>it. ranges it (q_tasks q) \<longrightarrow> sort_by due_before (filter (\<lambda>t. \<not> t_DueAt t > now
          \<and> mgetd 0 (q_cancelled q) (t_SnapshotID t) < t_Generation t) (map snd it)) = retry_Due now q)"
proof (intro conjI allI impI)
  have ok: "retry_ok q" unfolding assms by (rule queue.inv_reached)
  show "set (retry_Due now q) = {t \<in> set (mvals (q_tasks q)). instant (t_DueAt t) \<le> instant now}"
    using ok by (auto simp: retry_Due_sort retry_ok_def ran_def)
  have d: "distinct (map due_key (retry_Due now q))"
    unfolding retry_Due_sort
    by (simp add: distinct_map_filter [OF distinct_due [OF ok]])
  then show "distinct (retry_Due now q)" by (simp add: distinct_map)
  have "sorted (map due_key (retry_Due now q))" by (simp add: retry_Due_sort)
  then have "sorted_wrt (<) (map due_key (retry_Due now q))" using d by (simp add: strict_sorted_iff)
  then show "sorted_wrt due_before (retry_Due now q)"
    by (simp add: sorted_wrt_map due_before_key [abs_def])
  fix it assume "ranges it (q_tasks q)"
  from ranges_sort_filter [OF this distinct_due [OF ok]]
  show "sort_by due_before (filter (\<lambda>t. \<not> t_DueAt t > now
      \<and> mgetd 0 (q_cancelled q) (t_SnapshotID t) < t_Generation t) (map snd it)) = retry_Due now q"
    unfolding retry_Due_def sort_by_keyI [where k = due_key, OF due_before_key] .
qed

lemma retry_due_witness:
  "retry_Due (Time 10 UTC) (fold retry_step [RSchedule (sample_task ''b'' 3 5), RSchedule (sample_task ''a'' 2 5),
      RSchedule (sample_task ''c'' 2 50)] retry_New)
     = [sample_task ''a'' 2 5, sample_task ''b'' 3 5]
   \<and> distinct (retry_Due (Time 10 UTC) (fold retry_step [RSchedule (sample_task ''b'' 3 5),
       RSchedule (sample_task ''a'' 2 5), RSchedule (sample_task ''c'' 2 50)] retry_New))"
  using retry_due_spec [OF refl, of "Time 10 UTC" "[RSchedule (sample_task ''b'' 3 5),
      RSchedule (sample_task ''a'' 2 5), RSchedule (sample_task ''c'' 2 50)]"]
  by (simp add: retry_Due_def retry_defs Let_def sample_task_def entries_mput due_before_def tEqual_def)

end
