(* ===== verification/RestoreCursor.thy ===== *)
theory RestoreCursor
  imports Model Contracts
begin

text \<open>
  Package \<open>restore\<close> (\<open>internal/restore/cursor.go\<close>): the cursor of a restore plan, the last
  index of the contiguous run of chunks received so far (0 when nothing was), and the planner.
\<close>

record CursorStore =
  cs_cursors :: "(string, int) gomap"

definition restore_NewCursorStore :: CursorStore where
  "restore_NewCursorStore = \<lparr>cs_cursors = mempty\<rparr>"

text \<open>The loop of \<open>AdvanceContiguous\<close> over the sorted indices.\<close>

fun contiguous_loop :: "int \<Rightarrow> int list \<Rightarrow> int" where
  "contiguous_loop cursor [] = cursor"
| "contiguous_loop cursor (value # values) =
     (if value \<le> cursor then contiguous_loop cursor values
      else if value \<noteq> wrap64 (cursor + 1) then cursor
      else contiguous_loop value values)"

definition restore_AdvanceContiguous :: "string \<Rightarrow> int list \<Rightarrow> CursorStore \<Rightarrow> CursorStore \<times> int" where
  "restore_AdvanceContiguous planID received s =
     (let values = sort received;
          cursor = contiguous_loop (mgetd 0 (cs_cursors s) planID) values
      in (s\<lparr>cs_cursors := mput (cs_cursors s) planID cursor\<rparr>, cursor))"

definition restore_Cursor :: "string \<Rightarrow> CursorStore \<Rightarrow> int" where
  "restore_Cursor planID s = mgetd 0 (cs_cursors s) planID"

definition restore_Build :: "Snapshot \<Rightarrow> string \<Rightarrow> RestorePlan result" where
  "restore_Build snapshot planID =
     (if s_State snapshot = SnapshotExpired then Inl ErrInvalidTransition
      else Inr \<lparr>p_ID = planID, p_SnapshotID = s_ID snapshot,
             p_Chunks = sort (map c_Index (s_Chunks snapshot)), p_Cursor = 0,
             p_CreatedAt = s_CreatedAt snapshot\<rparr>)"

lemmas restore_defs [step_defs] =
  restore_NewCursorStore_def restore_AdvanceContiguous_def restore_Cursor_def restore_Build_def

fun cursor_step :: "string \<times> int list \<Rightarrow> CursorStore \<Rightarrow> CursorStore" where
  "cursor_step (planID, received) s = fst (restore_AdvanceContiguous planID received s)"

section \<open>The loop\<close>

lemma contiguous_loop_ge: "cursor \<le> contiguous_loop cursor vs"
  by (induction cursor vs rule: contiguous_loop.induct) auto

text \<open>
  What the loop reaches is covered by the values, and the next index is not among them. The
  successor of the cursor is compared only with a larger value, so it has not wrapped.
\<close>

lemma contiguous_loop_spec:
  assumes "sorted vs" and "\<forall>v \<in> set vs. in_int64 v" and "in_int64 cursor"
  shows "{cursor <.. contiguous_loop cursor vs} \<subseteq> set vs
    \<and> contiguous_loop cursor vs + 1 \<notin> set vs"
  using assms
proof (induction cursor vs rule: contiguous_loop.induct)
  case (2 cursor v vs)
  show ?case
  proof (cases "v \<le> cursor")
    case True
    with 2 have "{cursor <.. contiguous_loop cursor vs} \<subseteq> set vs
        \<and> contiguous_loop cursor vs + 1 \<notin> set vs" by simp
    with True show ?thesis using contiguous_loop_ge [of cursor vs] by auto
  next
    case False
    then have "in_int64 (cursor + 1)"
      using "2.prems"(2,3) by (auto simp: in_int64_def)
    then have w: "wrap64 (cursor + 1) = cursor + 1" by (rule wrap64_id)
    show ?thesis
    proof (cases "v = cursor + 1")
      case True
      with 2 w have "{v <.. contiguous_loop v vs} \<subseteq> set vs \<and> contiguous_loop v vs + 1 \<notin> set vs"
        by simp
      moreover have "{cursor <.. k} \<subseteq> insert v {v <.. k}" for k using True by auto
      moreover have "v \<le> contiguous_loop v vs" by (rule contiguous_loop_ge)
      ultimately show ?thesis using True w False by simp blast
    next
      case ne: False
      with False w "2.prems"(1) show ?thesis by auto
    qed
  qed
qed simp

text \<open>The cursors only move forward.\<close>

interpretation cursors: monotone_store cursor_step "\<lambda>s k. mgetd 0 (cs_cursors s) k"
  by unfold_locales
    (rename_tac s k op, case_tac op, auto simp: restore_AdvanceContiguous_def Let_def contiguous_loop_ge)

section \<open>Properties\<close>

text \<open>
  C29: \<open>AdvanceContiguous\<close> moves the cursor of its plan to the end of the longest run of
  consecutive indices, starting right after the old cursor, that were all received: everything
  between the old and the new cursor was received, the index after the new cursor was not, and
  any index up to which everything was received is at most the new cursor. No other plan moves.
  Every later call, with whatever indices, keeps the cursor at or above it.
\<close>

theorem restore_cursor_is_longest_run:
  assumes "\<forall>v \<in> set received. in_int64 v" and "in_int64 (restore_Cursor p s)"
    and "restore_AdvanceContiguous p received s = (s', c')"
  shows "restore_Cursor p s' = c' \<and> restore_Cursor p s \<le> c'
    \<and> {restore_Cursor p s <.. c'} \<subseteq> set received \<and> c' + 1 \<notin> set received
    \<and> (\<forall>c. {restore_Cursor p s <.. c} \<subseteq> set received \<longrightarrow> c \<le> c')
    \<and> (\<forall>q. q \<noteq> p \<longrightarrow> restore_Cursor q s' = restore_Cursor q s)
    \<and> (\<forall>later. c' \<le> restore_Cursor p (fold cursor_step later s'))"
proof -
  let ?c = "restore_Cursor p s"
  have c': "c' = contiguous_loop ?c (sort received)"
    and s': "s' = s\<lparr>cs_cursors := mput (cs_cursors s) p c'\<rparr>"
    using assms(3) by (auto simp: restore_AdvanceContiguous_def restore_Cursor_def Let_def)
  have spec: "{?c <.. c'} \<subseteq> set received \<and> c' + 1 \<notin> set received" and le: "?c \<le> c'"
    using contiguous_loop_spec [of "sort received" ?c] contiguous_loop_ge [of ?c] assms(1,2) c' by auto
  have "c \<le> c'" if "{?c <.. c} \<subseteq> set received" for c
  proof (rule ccontr)
    assume "\<not> c \<le> c'"
    then have "c' + 1 \<in> {?c <.. c}" using le by auto
    with that spec show False by blast
  qed
  moreover have "c' \<le> restore_Cursor p (fold cursor_step later s')" for later
    unfolding restore_Cursor_def by (rule cursors.run_keeps_bound) (simp add: s')
  ultimately show ?thesis
    using spec le by (simp add: s' restore_Cursor_def)
qed

lemma restore_cursor_witness:
  "snd (restore_AdvanceContiguous ''p'' [5, 2, 1, 3] restore_NewCursorStore) = 3"
proof -
  let ?r = "restore_AdvanceContiguous ''p'' [5, 2, 1, 3] restore_NewCursorStore"
  have "\<forall>v \<in> set [5, 2, 1, 3]. in_int64 v" "in_int64 (restore_Cursor ''p'' restore_NewCursorStore)"
    by (simp_all add: in_int64_def minInt64_def maxInt64_def restore_defs)
  from restore_cursor_is_longest_run [OF this, of "fst ?r" "snd ?r"] have
    "4 \<noteq> snd ?r" "snd ?r \<ge> 0" "snd ?r + 1 \<notin> {5, 2, 1, 3}" "{0 <.. snd ?r} \<subseteq> {5, 2, 1, 3}"
    by (auto simp: restore_defs)
  then show ?thesis
    by (simp add: restore_defs Let_def wrap64_def)
qed

text \<open>
  The planner refuses exactly the expired snapshots, and otherwise plans exactly the indices of
  the snapshot's chunks, in increasing order, starting from cursor 0; where the chunks are
  already ordered, as every published snapshot's are, in the order of the chunks.
\<close>

theorem restore_plan_spec:
  "(case restore_Build sn pid of
      Inl e \<Rightarrow> e = ErrInvalidTransition \<and> s_State sn = SnapshotExpired
    | Inr p \<Rightarrow> s_State sn \<noteq> SnapshotExpired \<and> p_ID p = pid \<and> p_SnapshotID p = s_ID sn \<and> p_Cursor p = 0
        \<and> mset (p_Chunks p) = mset (map c_Index (s_Chunks sn)) \<and> sorted (p_Chunks p)
        \<and> (sorted (map c_Index (s_Chunks sn)) \<longrightarrow> p_Chunks p = map c_Index (s_Chunks sn)))"
  by (simp add: restore_Build_def sorted_sort_id)

lemma restore_plan_witness:
  "let sn = \<lparr>s_ID = ''a'', s_BaseID = [], s_Operation = ''op'', s_Generation = 1, s_Full = True,
         s_State = SnapshotVerified, s_Metadata = mempty,
         s_Chunks = [\<lparr>c_Index = 0, c_Digest = ''x'', c_Data = []\<rparr>, \<lparr>c_Index = 1, c_Digest = ''y'', c_Data = []\<rparr>],
         s_CreatedAt = zeroTime\<rparr>
   in p_Chunks (projr (restore_Build sn ''p'')) = [0, 1]"
  using restore_plan_spec [of "\<lparr>s_ID = ''a'', s_BaseID = [], s_Operation = ''op'', s_Generation = 1, s_Full = True,
         s_State = SnapshotVerified, s_Metadata = mempty,
         s_Chunks = [\<lparr>c_Index = 0, c_Digest = ''x'', c_Data = []\<rparr>, \<lparr>c_Index = 1, c_Digest = ''y'', c_Data = []\<rparr>],
         s_CreatedAt = zeroTime\<rparr>" "''p''"]
  by (simp add: restore_Build_def Let_def)

end
