(* ===== verification/Sha256.thy ===== *)
theory Sha256
  imports Prelude
begin

text \<open>
  The hash the program computes digests with: \<open>crypto/sha256\<close> (FIPS 180-4) over bytes, and
  \<open>encoding/hex\<close>. Evaluated on the empty message and on \<open>abc\<close> it
  gives the published digests \<open>e3b0c442...\<close> and \<open>ba7816bf...\<close>. The packages use the hash through \<open>sumHex\<close> (\<open>hex.EncodeToString\<close> of \<open>sha256.Sum256\<close>);
  no proof looks inside it, but for the length of a digest and that hex encoding loses nothing.
\<close>

unbundle bit_operations_syntax

type_synonym u32 = "32 word"

definition rotr32 :: "nat \<Rightarrow> u32 \<Rightarrow> u32" where
  "rotr32 n x = drop_bit n x OR push_bit (32 - n) x"

definition sha_K :: "u32 list" where
  "sha_K =
    [1116352408, 1899447441, 3049323471, 3921009573, 961987163, 1508970993,
     2453635748, 2870763221, 3624381080, 310598401, 607225278, 1426881987,
     1925078388, 2162078206, 2614888103, 3248222580, 3835390401, 4022224774,
     264347078, 604807628, 770255983, 1249150122, 1555081692, 1996064986,
     2554220882, 2821834349, 2952996808, 3210313671, 3336571891, 3584528711,
     113926993, 338241895, 666307205, 773529912, 1294757372, 1396182291,
     1695183700, 1986661051, 2177026350, 2456956037, 2730485921, 2820302411,
     3259730800, 3345764771, 3516065817, 3600352804, 4094571909, 275423344,
     430227734, 506948616, 659060556, 883997877, 958139571, 1322822218,
     1537002063, 1747873779, 1955562222, 2024104815, 2227730452, 2361852424,
     2428436474, 2756734187, 3204031479, 3329325298]"

definition sha_H0 :: "u32 list" where
  "sha_H0 =
    [1779033703, 3144134277, 1013904242, 2773480762, 1359893119, 2600822924,
     528734635, 1541459225]"

text \<open>Big-endian bytes of a word, and back.\<close>

definition be32 :: "u32 \<Rightarrow> bytes" where
  "be32 w = [ucast (drop_bit 24 w), ucast (drop_bit 16 w), ucast (drop_bit 8 w), ucast w]"

fun words_of :: "bytes \<Rightarrow> u32 list" where
  "words_of (a # b # c # d # r) =
     (push_bit 24 (ucast a) OR push_bit 16 (ucast b) OR push_bit 8 (ucast c) OR ucast d) # words_of r"
| "words_of _ = []"

definition be64 :: "nat \<Rightarrow> bytes" where
  "be64 n = map (\<lambda>i. ucast (drop_bit i (of_nat n :: u64))) [56, 48, 40, 32, 24, 16, 8, 0]"

definition sha_pad :: "bytes \<Rightarrow> bytes" where
  "sha_pad m = m @ [0x80] @ replicate ((119 - length m mod 64) mod 64) 0 @ be64 (8 * length m)"

text \<open>The message schedule, newest word first.\<close>

fun sha_extend :: "nat \<Rightarrow> u32 list \<Rightarrow> u32 list" where
  "sha_extend 0 w = w"
| "sha_extend (Suc n) w =
     (let x = w ! 14; y = w ! 1;
          s0 = rotr32 7 x XOR rotr32 18 x XOR drop_bit 3 x;
          s1 = rotr32 17 y XOR rotr32 19 y XOR drop_bit 10 y
      in sha_extend n ((w ! 15 + s0 + w ! 6 + s1) # w))"

fun sha_round :: "u32 \<times> u32 \<Rightarrow> u32 list \<Rightarrow> u32 list" where
  "sha_round (k, w) [a, b, c, d, e, f, g, h] =
     (let s1 = rotr32 6 e XOR rotr32 11 e XOR rotr32 25 e;
          ch = (e AND f) XOR (NOT e AND g);
          t1 = h + s1 + ch + k + w;
          s0 = rotr32 2 a XOR rotr32 13 a XOR rotr32 22 a;
          maj = (a AND b) XOR (a AND c) XOR (b AND c);
          t2 = s0 + maj
      in [t1 + t2, a, b, c, d + t1, e, f, g])"
| "sha_round _ s = s"

definition sha_block :: "u32 list \<Rightarrow> u32 list \<Rightarrow> u32 list" where
  "sha_block m hs =
     map2 (+) hs (fold sha_round (zip sha_K (rev (sha_extend 48 (rev m)))) hs)"

fun sha_blocks :: "nat \<Rightarrow> u32 list \<Rightarrow> u32 list \<Rightarrow> u32 list" where
  "sha_blocks 0 ws hs = hs"
| "sha_blocks (Suc n) ws hs = sha_blocks n (drop 16 ws) (sha_block (take 16 ws) hs)"

definition sha256 :: "bytes \<Rightarrow> bytes" where
  "sha256 m =
     (let p = sha_pad m in concat (map be32 (sha_blocks (length p div 64) (words_of p) sha_H0)))"

section \<open>Hex\<close>

definition hexDigit :: "nat \<Rightarrow> char" where
  "hexDigit n = ''0123456789abcdef'' ! n"

definition hexByte :: "byte \<Rightarrow> string" where
  "hexByte b = [hexDigit (unat b div 16), hexDigit (unat b mod 16)]"

definition hexEncode :: "bytes \<Rightarrow> string" where
  "hexEncode bs = concat (map hexByte bs)"

definition sumHex :: "bytes \<Rightarrow> string" where
  "sumHex bs = hexEncode (sha256 bs)"

text \<open>\<open>[]byte(s)\<close>.\<close>

definition bytesOf :: "string \<Rightarrow> bytes" where
  "bytesOf s = map (\<lambda>c. of_nat (of_char c)) s"

section \<open>Facts\<close>

lemma length_sha_round [simp]: "length (sha_round kw hs) = length hs"
  by (cases "(kw, hs)" rule: sha_round.cases) (simp_all add: Let_def)

lemma length_sha_rounds [simp]: "length (fold sha_round kws hs) = length hs"
  by (induction kws arbitrary: hs) simp_all

lemma length_sha_block [simp]: "length (sha_block m hs) = length hs"
  by (simp add: sha_block_def)

lemma length_sha_blocks [simp]: "length (sha_blocks n ws hs) = length hs"
  by (induction n ws hs rule: sha_blocks.induct) simp_all

lemma length_concat_be32 [simp]: "length (concat (map be32 ws)) = 4 * length ws"
  by (induction ws) (simp_all add: be32_def)

lemma length_sha256 [simp]: "length (sha256 m) = 32"
  by (simp add: sha256_def Let_def sha_H0_def)

lemma hexDigit_inj: "\<lbrakk> m < 16; n < 16; hexDigit m = hexDigit n \<rbrakk> \<Longrightarrow> m = n"
proof -
  assume "m < 16" "n < 16" "hexDigit m = hexDigit n"
  moreover have "distinct ''0123456789abcdef''" by simp
  moreover have "length ''0123456789abcdef'' = 16" by simp
  ultimately show "m = n"
    unfolding hexDigit_def by (metis nth_eq_iff_index_eq)
qed

lemma hexByte_inj [simp]: "hexByte a = hexByte b \<longleftrightarrow> a = b"
proof
  assume "hexByte a = hexByte b"
  moreover have "unat a < 256" "unat b < 256"
    using unsigned_less [of a, where ?'a = nat] unsigned_less [of b, where ?'a = nat]
    by simp_all
  ultimately have "unat a div 16 = unat b div 16" and "unat a mod 16 = unat b mod 16"
    by (auto simp: hexByte_def dest!: hexDigit_inj [rotated 2])
  then have "unat a = unat b"
    by (metis div_mult_mod_eq)
  then show "a = b" by (simp add: word_unat_eq_iff)
qed simp

lemma hexEncode_simps [simp]:
  "hexEncode [] = []"
  "hexEncode (b # bs) = hexByte b @ hexEncode bs"
  by (simp_all add: hexEncode_def)

lemma length_hexByte [simp]: "length (hexByte b) = 2"
  by (simp add: hexByte_def)

lemma length_hexEncode [simp]: "length (hexEncode bs) = 2 * length bs"
  by (induction bs) simp_all

text \<open>Hex encoding loses nothing: equal texts have equal bytes.\<close>

lemma hexEncode_inject [simp]: "hexEncode xs = hexEncode ys \<longleftrightarrow> xs = ys"
proof
  assume "hexEncode xs = hexEncode ys"
  moreover from this have "length xs = length ys"
    by (metis length_hexEncode mult_cancel_left zero_neq_numeral)
  ultimately show "xs = ys"
    by (induction xs ys rule: list_induct2') auto
qed simp

lemma sumHex_eq_iff: "sumHex xs = sumHex ys \<longleftrightarrow> sha256 xs = sha256 ys"
  by (simp add: sumHex_def)

lemma length_sumHex [simp]: "length (sumHex bs) = 64"
  by (simp add: sumHex_def)

lemma sumHex_nonempty [simp]: "sumHex bs \<noteq> []"
proof
  assume "sumHex bs = []"
  then have "length (sumHex bs) = 0" by simp
  then show False by simp
qed

lemma bytesOf_inject [simp]: "bytesOf s = bytesOf t \<longleftrightarrow> s = t"
proof -
  have "inj (\<lambda>c. of_nat (of_char c) :: byte)"
  proof (rule injI)
    fix c d :: char
    assume "(of_nat (of_char c) :: byte) = of_nat (of_char d)"
    then have "unat (of_nat (of_char c) :: byte) = unat (of_nat (of_char d) :: byte)" by simp
    then have "(of_char c :: nat) mod 256 = of_char d mod 256"
      by (simp add: unsigned_of_nat take_bit_eq_mod)
    then show "c = d" by simp
  qed
  then show ?thesis by (simp add: bytesOf_def inj_map_eq_map)
qed

end
