(* ===== verification/Receipts.thy ===== *)
theory Receipts
  imports Model Sha256
begin

text \<open>
  Package \<open>verify\<close> (\<open>internal/verify/receipts.go\<close>): the digest of a snapshot's content and
  the receipts of verifications.
\<close>

record ReceiptStore =
  rc_receipts :: "(string, VerificationReceipt) gomap"

definition verify_NewStore :: ReceiptStore where
  "verify_NewStore = \<lparr>rc_receipts = mempty\<rparr>"

text \<open>What \<open>Digest\<close> writes to the hash: per chunk, the text of its digest and its data.\<close>

definition digestInput :: "Chunk list \<Rightarrow> bytes" where
  "digestInput chunks = concat (map (\<lambda>chunk. bytesOf (c_Digest chunk) @ c_Data chunk) chunks)"

definition verify_Digest :: "Snapshot \<Rightarrow> string" where
  "verify_Digest snapshot = sumHex (digestInput (s_Chunks snapshot))"

definition verify_Prepare :: "Snapshot \<Rightarrow> string \<Rightarrow> time \<Rightarrow> VerificationReceipt" where
  "verify_Prepare snapshot digest now =
     \<lparr>v_SnapshotID = s_ID snapshot, v_Generation = s_Generation snapshot, v_Digest = digest,
      v_VerifiedAt = tUTC now\<rparr>"

definition verify_Commit :: "VerificationReceipt \<Rightarrow> ReceiptStore \<Rightarrow> ReceiptStore" where
  "verify_Commit receipt s = s\<lparr>rc_receipts := mput (rc_receipts s) (v_SnapshotID receipt) receipt\<rparr>"

definition verify_Delete :: "string \<Rightarrow> u64 \<Rightarrow> ReceiptStore \<Rightarrow> ReceiptStore" where
  "verify_Delete snapshotID generation s =
     (case mget (rc_receipts s) snapshotID of
        Some receipt \<Rightarrow> if v_Generation receipt = generation
          then s\<lparr>rc_receipts := mdel (rc_receipts s) snapshotID\<rparr> else s
      | None \<Rightarrow> s)"

definition verify_Receipt :: "string \<Rightarrow> ReceiptStore \<Rightarrow> VerificationReceipt option" where
  "verify_Receipt snapshotID s = mget (rc_receipts s) snapshotID"

lemmas receipt_defs [step_defs] =
  verify_NewStore_def verify_Prepare_def verify_Commit_def verify_Delete_def verify_Receipt_def

lemma Receipt_Commit [simp]:
  "verify_Receipt i (verify_Commit r s) = (if i = v_SnapshotID r then Some r else verify_Receipt i s)"
  by (simp add: receipt_defs gomap_simps)

lemma Receipt_Delete:
  "verify_Receipt i (verify_Delete j g s) =
     (if i = j \<and> (\<exists>r. verify_Receipt j s = Some r \<and> v_Generation r = g) then None else verify_Receipt i s)"
  by (auto simp: receipt_defs gomap_simps split: option.split)

text \<open>
  Where every chunk's digest text has the same length and the data lengths agree, the digest's
  input determines the chunks' digests and data.
\<close>

lemma digestInput_inject:
  assumes "length xs = length ys"
    and "\<forall>i < length xs. length (c_Digest (xs ! i)) = length (c_Digest (ys ! i))
      \<and> length (c_Data (xs ! i)) = length (c_Data (ys ! i))"
    and "digestInput xs = digestInput ys"
  shows "map c_Digest xs = map c_Digest ys \<and> map c_Data xs = map c_Data ys"
  using assms
proof (induction xs ys rule: list_induct2)
  case (Cons x xs y ys)
  have len: "length (c_Digest x) = length (c_Digest y)" "length (c_Data x) = length (c_Data y)"
    using Cons.prems(1) [THEN spec, of 0] by simp_all
  have "length (bytesOf (c_Digest x)) = length (bytesOf (c_Digest y))"
    using len by (simp add: bytesOf_def)
  with Cons.prems(2) len have "bytesOf (c_Digest x) = bytesOf (c_Digest y) \<and> c_Data x = c_Data y
      \<and> digestInput xs = digestInput ys"
    by (simp add: digestInput_def)
  moreover have "\<forall>i < length xs. length (c_Digest (xs ! i)) = length (c_Digest (ys ! i))
      \<and> length (c_Data (xs ! i)) = length (c_Data (ys ! i))"
    using Cons.prems(1) by (metis Suc_less_eq length_Cons nth_Cons_Suc)
  ultimately show ?case using Cons.IH by simp
qed simp

section \<open>Properties\<close>

text \<open>
  Two snapshots of the same shape (as many chunks, digest texts and data of the same lengths)
  with the same \<open>Digest\<close> have the same digests and data in every chunk, or their inputs collide
  under SHA-256. Without the shape the digest says less: chunk boundaries are not hashed, and a
  snapshot of one chunk has the digest of one that holds the same bytes in two.
\<close>

theorem receipt_digest_binds:
  "(length (s_Chunks a) = length (s_Chunks b)
    \<and> (\<forall>i < length (s_Chunks a). length (c_Digest (s_Chunks a ! i)) = length (c_Digest (s_Chunks b ! i))
        \<and> length (c_Data (s_Chunks a ! i)) = length (c_Data (s_Chunks b ! i)))
    \<and> verify_Digest a = verify_Digest b
    \<longrightarrow> map c_Digest (s_Chunks a) = map c_Digest (s_Chunks b) \<and> map c_Data (s_Chunks a) = map c_Data (s_Chunks b)
      \<or> digestInput (s_Chunks a) \<noteq> digestInput (s_Chunks b)
        \<and> sha256 (digestInput (s_Chunks a)) = sha256 (digestInput (s_Chunks b)))
   \<and> verify_Digest (a\<lparr>s_Chunks := [\<lparr>c_Index = 0, c_Digest = d, c_Data = x @ bytesOf e @ y\<rparr>]\<rparr>)
     = verify_Digest (a\<lparr>s_Chunks := [\<lparr>c_Index = 0, c_Digest = d, c_Data = x\<rparr>,
                                 \<lparr>c_Index = 1, c_Digest = e, c_Data = y\<rparr>]\<rparr>)"
  using digestInput_inject [of "s_Chunks a" "s_Chunks b"]
  by (auto simp: verify_Digest_def sumHex_eq_iff digestInput_def)

definition receipt_sample :: "bytes \<Rightarrow> Snapshot" where
  "receipt_sample x = \<lparr>s_ID = ''a'', s_BaseID = [], s_Operation = ''op'', s_Generation = 1, s_Full = True,
     s_State = SnapshotVerified, s_Metadata = mempty,
     s_Chunks = [\<lparr>c_Index = 0, c_Digest = ''x'', c_Data = x\<rparr>], s_CreatedAt = zeroTime\<rparr>"

lemma receipt_digest_binds_witness:
  "verify_Digest (receipt_sample [7]) = verify_Digest (receipt_sample [7])
   \<and> map c_Data (s_Chunks (receipt_sample [7])) = [[7]]"
  using receipt_digest_binds [of "receipt_sample [7]" "receipt_sample [7]"]
  by (simp add: receipt_sample_def)

end
