(* ===== verification/Checkpoint.thy ===== *)
theory Checkpoint
  imports Model Contracts
begin

text \<open>
  Package \<open>checkpoint\<close> (\<open>internal/checkpoint/store.go\<close>): one record per snapshot that
  advances through a state machine (its Go type is a string type with the six constants below;
  any other string is refused like a transition that is not allowed), with the history of its states. The states are linearly
  ordered so that every allowed transition goes up; hence a history is strictly increasing,
  starts at \<open>prepared\<close>, ends at the record's state and has at most five states.
\<close>

datatype cpState = Prepared | Staged | Published | Verified | Restored | Aborted

fun rank :: "cpState \<Rightarrow> nat" where
  "rank Prepared = 0"
| "rank Staged = 1"
| "rank Published = 2"
| "rank Verified = 3"
| "rank Restored = 4"
| "rank Aborted = 5"

lemma rank_inject: "rank a = rank b \<longleftrightarrow> a = b"
  by (cases a; cases b) simp_all

instantiation cpState :: linorder
begin

definition less_eq_cpState :: "cpState \<Rightarrow> cpState \<Rightarrow> bool" where
  "less_eq_cpState a b \<longleftrightarrow> rank a \<le> rank b"

definition less_cpState :: "cpState \<Rightarrow> cpState \<Rightarrow> bool" where
  "less_cpState a b \<longleftrightarrow> rank a < rank b"

instance
  by standard (auto simp: less_eq_cpState_def less_cpState_def rank_inject)

end

record cpRecord =
  cp_SnapshotID :: string
  cp_Operation :: string
  cp_Generation :: u64
  cp_State :: cpState
  cp_ChunkCount :: int
  cp_Digest :: string
  cp_UpdatedAt :: time

record cpStore =
  cp_records :: "(string, cpRecord) gomap"
  cp_history :: "(string, cpState list) gomap"

definition checkpoint_New :: cpStore where
  "checkpoint_New = \<lparr>cp_records = mempty, cp_history = mempty\<rparr>"

fun allowed :: "cpState \<Rightarrow> cpState \<Rightarrow> bool" where
  "allowed Prepared nxt \<longleftrightarrow> nxt = Staged \<or> nxt = Aborted"
| "allowed Staged nxt \<longleftrightarrow> nxt = Published \<or> nxt = Aborted"
| "allowed Published nxt \<longleftrightarrow> nxt = Verified \<or> nxt = Restored"
| "allowed Verified nxt \<longleftrightarrow> nxt = Restored \<or> nxt = Aborted"
| "allowed _ nxt \<longleftrightarrow> False"

definition checkpoint_Start ::
  "string \<Rightarrow> string \<Rightarrow> u64 \<Rightarrow> time \<Rightarrow> cpStore \<Rightarrow> cpStore \<times> cpRecord result" where
  "checkpoint_Start snapshotID operation generation now s =
     (if mget (cp_records s) snapshotID \<noteq> None then (s, Inl ErrExists)
      else let r = \<lparr>cp_SnapshotID = snapshotID, cp_Operation = operation,
             cp_Generation = generation, cp_State = Prepared, cp_ChunkCount = 0, cp_Digest = [],
             cp_UpdatedAt = tUTC now\<rparr>
           in (s\<lparr>cp_records := mput (cp_records s) snapshotID r,
                 cp_history := mput (cp_history s) snapshotID [Prepared]\<rparr>, Inr r))"

definition checkpoint_Advance ::
  "string \<Rightarrow> u64 \<Rightarrow> cpState \<Rightarrow> int \<Rightarrow> string \<Rightarrow> time \<Rightarrow> cpStore \<Rightarrow> cpStore \<times> cpRecord result" where
  "checkpoint_Advance snapshotID generation nxt chunks digest now s =
     (case mget (cp_records s) snapshotID of
        None \<Rightarrow> (s, Inl ErrMissing)
      | Some r \<Rightarrow>
          if cp_Generation r \<noteq> generation then (s, Inl ErrGeneration)
          else if \<not> allowed (cp_State r) nxt then (s, Inl ErrTransition)
          else let r' = r\<lparr>cp_State := nxt, cp_ChunkCount := chunks, cp_Digest := digest,
                 cp_UpdatedAt := tUTC now\<rparr>
               in (s\<lparr>cp_records := mput (cp_records s) snapshotID r',
                     cp_history := mput (cp_history s) snapshotID
                       (mgetd [] (cp_history s) snapshotID @ [nxt])\<rparr>, Inr r'))"

definition checkpoint_Abort :: "string \<Rightarrow> u64 \<Rightarrow> time \<Rightarrow> cpStore \<Rightarrow> cpStore \<times> error option" where
  "checkpoint_Abort snapshotID generation now s =
     (case checkpoint_Advance snapshotID generation Aborted 0 [] now s of
        (s', Inl e) \<Rightarrow> (s', Some e)
      | (s', Inr _) \<Rightarrow> (s', None))"

definition checkpoint_Get :: "string \<Rightarrow> cpStore \<Rightarrow> cpRecord option" where
  "checkpoint_Get snapshotID s = mget (cp_records s) snapshotID"

definition checkpoint_History :: "string \<Rightarrow> cpStore \<Rightarrow> cpState list" where
  "checkpoint_History snapshotID s = mgetd [] (cp_history s) snapshotID"

text \<open>\<open>Active\<close>, over the records in the order the \<open>range\<close> visits them.\<close>

definition checkpoint_Active :: "(string \<times> cpRecord) list \<Rightarrow> cpRecord list" where
  "checkpoint_Active it = filter (\<lambda>r. cp_State r \<noteq> Aborted \<and> cp_State r \<noteq> Restored) (map snd it)"

lemmas checkpoint_defs [step_defs] =
  checkpoint_New_def checkpoint_Start_def checkpoint_Advance_def checkpoint_Abort_def
  checkpoint_Get_def checkpoint_History_def

inductive checkpoint_reach :: "cpStore \<Rightarrow> bool" where
  cp_start: "checkpoint_reach checkpoint_New"
| cp_Start: "checkpoint_reach s \<Longrightarrow> checkpoint_reach (fst (checkpoint_Start i op g now s))"
| cp_Advance: "checkpoint_reach s \<Longrightarrow> checkpoint_reach (fst (checkpoint_Advance i g nxt n d now s))"

section \<open>Histories\<close>

lemma allowed_less: "allowed a b \<Longrightarrow> a < b"
  by (cases a) (auto simp: less_cpState_def)

text \<open>Consecutive states of a history are related by \<open>allowed\<close>.\<close>

definition path :: "cpState list \<Rightarrow> bool" where
  "path h \<longleftrightarrow> h \<noteq> [] \<and> hd h = Prepared \<and> (\<forall>i. Suc i < length h \<longrightarrow> allowed (h ! i) (h ! Suc i))"

lemma path_single: "path [Prepared]"
  by (simp add: path_def)

lemma path_snoc: "\<lbrakk> path h; allowed (last h) b \<rbrakk> \<Longrightarrow> path (h @ [b])"
proof -
  assume p: "path h" and a: "allowed (last h) b"
  have "allowed ((h @ [b]) ! i) ((h @ [b]) ! Suc i)" if "Suc i < length (h @ [b])" for i
  proof (cases "Suc i = length h")
    case True
    then have "last h = h ! i" by (metis diff_Suc_1 last_conv_nth length_0_conv nat.distinct(1))
    with True a show ?thesis by (simp add: nth_append)
  qed (use that p in \<open>auto simp: path_def nth_append\<close>)
  with p show ?thesis by (simp add: path_def)
qed

lemma path_step_less:
  assumes "path h" and "i < j" and "j < length h"
  shows "h ! i < h ! j"
  using assms(2,3)
proof (induction j)
  case (Suc j)
  have "h ! j < h ! Suc j" using assms(1) Suc.prems by (auto simp: path_def intro: allowed_less)
  then show ?case using Suc by (cases "i = j") (auto intro: less_trans)
qed simp

lemma path_strict: "path h \<Longrightarrow> sorted_wrt (<) h"
  by (simp add: sorted_wrt_iff_nth_less path_step_less)

text \<open>
  The states are six, but no transition leads from \<open>restored\<close> to \<open>aborted\<close>, so a history has
  at most five of them.
\<close>

lemma path_no_both: "path h \<Longrightarrow> \<not> (Restored \<in> set h \<and> Aborted \<in> set h)"
proof
  assume p: "path h" and "Restored \<in> set h \<and> Aborted \<in> set h"
  then obtain i j where ij: "i < length h" "h ! i = Restored" "j < length h" "h ! j = Aborted"
    by (auto simp: in_set_conv_nth)
  show False
  proof (cases "i < j")
    case True
    then have "Suc i < length h" using ij by simp
    then have "allowed (h ! i) (h ! Suc i)" using p by (simp add: path_def)
    then show False using ij by simp
  next
    case False
    then have "j < i" using ij by (cases "i = j") auto
    then have "Suc j < length h" using ij by simp
    then have "allowed (h ! j) (h ! Suc j)" using p by (simp add: path_def)
    then show False using ij by simp
  qed
qed

lemma path_length: "path h \<Longrightarrow> length h \<le> 5"
proof -
  assume p: "path h"
  have "distinct h" using path_strict [OF p] by (simp add: strict_sorted_iff)
  then have len: "length h = card (set h)" by (simp add: distinct_card)
  have "set h \<subseteq> {Prepared, Staged, Published, Verified, Restored}
      \<or> set h \<subseteq> {Prepared, Staged, Published, Verified, Aborted}"
    using path_no_both [OF p] by (auto intro: cpState.exhaust)
  then have "card (set h) \<le> card {Prepared, Staged, Published, Verified, Restored}
      \<or> card (set h) \<le> card {Prepared, Staged, Published, Verified, Aborted}"
    by (meson card_mono finite.emptyI finite_insert)
  then show ?thesis using len by simp
qed

section \<open>The invariant\<close>

definition checkpoint_ok :: "cpStore \<Rightarrow> string \<Rightarrow> bool" where
  "checkpoint_ok s i \<longleftrightarrow>
     mget (cp_records s) i = None \<and> mget (cp_history s) i = None
   \<or> (\<exists>r h. mget (cp_records s) i = Some r \<and> mget (cp_history s) i = Some h
        \<and> cp_SnapshotID r = i \<and> path h \<and> last h = cp_State r)"

lemma checkpoint_ok_Start:
  "\<forall>i. checkpoint_ok s i \<Longrightarrow> checkpoint_ok (fst (checkpoint_Start j op g now s)) i"
  by (cases "i = j") (auto simp: checkpoint_ok_def checkpoint_Start_def Let_def gomap_simps path_single)

lemma checkpoint_ok_Advance:
  assumes "\<forall>i. checkpoint_ok s i"
  shows "checkpoint_ok (fst (checkpoint_Advance j g nxt n d now s)) i"
proof (cases "mget (cp_records s) j")
  case None
  with assms show ?thesis by (simp add: checkpoint_Advance_def)
next
  case (Some r)
  then obtain h where "cp_SnapshotID r = j" "mget (cp_history s) j = Some h" "path h" "last h = cp_State r"
    using assms [THEN spec, of j] by (auto simp: checkpoint_ok_def)
  moreover from this have "allowed (cp_State r) nxt \<Longrightarrow> path (h @ [nxt])"
    by (simp add: path_snoc)
  ultimately show ?thesis
    using Some assms [THEN spec, of i]
    by (cases "i = j") (simp_all add: checkpoint_ok_def checkpoint_Advance_def Let_def gomap_simps)
qed

lemma checkpoint_reach_ok: "checkpoint_reach s \<Longrightarrow> \<forall>i. checkpoint_ok s i"
proof (induction rule: checkpoint_reach.induct)
  case cp_start
  show ?case by (simp add: checkpoint_ok_def checkpoint_New_def)
qed (simp_all add: checkpoint_ok_Start checkpoint_ok_Advance)

section \<open>Properties\<close>

text \<open>
  C25: in every reachable store the history of a snapshot is empty exactly when it has no record;
  otherwise it begins with \<open>prepared\<close>, each step in it is an allowed transition, it strictly
  increases in the order of the states, has at most five states, and ends in the state of the
  record.
\<close>

theorem checkpoint_history_is_a_run:
  assumes "checkpoint_reach s"
  shows "case checkpoint_Get i s of
      None \<Rightarrow> checkpoint_History i s = []
    | Some r \<Rightarrow> (let h = checkpoint_History i s in
        hd h = Prepared \<and> last h = cp_State r \<and> sorted_wrt (<) h \<and> 1 \<le> length h \<and> length h \<le> 5
        \<and> (\<forall>k. Suc k < length h \<longrightarrow> allowed (h ! k) (h ! Suc k)))"
  using checkpoint_reach_ok [OF assms, THEN spec, of i] path_strict path_length
  by (auto simp: checkpoint_ok_def checkpoint_Get_def checkpoint_History_def path_def Let_def Suc_le_eq)

lemma checkpoint_history_is_a_run_witness:
  "let s = fst (checkpoint_Advance ''s'' 1 Staged 2 ''d'' zeroTime
             (fst (checkpoint_Start ''s'' ''op'' 1 zeroTime checkpoint_New)))
   in checkpoint_History ''s'' s = [Prepared, Staged] \<and> sorted_wrt (<) (checkpoint_History ''s'' s)"
proof -
  let ?s = "fst (checkpoint_Advance ''s'' 1 Staged 2 ''d'' zeroTime
             (fst (checkpoint_Start ''s'' ''op'' 1 zeroTime checkpoint_New)))"
  have "checkpoint_reach ?s" by (intro checkpoint_reach.intros)
  from checkpoint_history_is_a_run [OF this, of "''s''"] show ?thesis
    by (simp add: checkpoint_defs Let_def)
qed

text \<open>
  \<open>Advance\<close> on every branch. A missing record, another generation and a transition that is
  not allowed are refused, in this order, without a change; a record that is restored or aborted
  accepts no transition at all, and a published one cannot be aborted. Otherwise the record has
  the new state and the state is appended to its history; other snapshots are not touched.
\<close>

theorem checkpoint_advance_spec:
  "(case checkpoint_Get i s of
      None \<Rightarrow> checkpoint_Advance i g nxt n d now s = (s, Inl ErrMissing)
    | Some r \<Rightarrow>
        (cp_Generation r \<noteq> g \<longrightarrow> checkpoint_Advance i g nxt n d now s = (s, Inl ErrGeneration))
      \<and> (cp_Generation r = g \<and> (cp_State r = Restored \<or> cp_State r = Aborted
           \<or> cp_State r = Published \<and> nxt = Aborted)
         \<longrightarrow> checkpoint_Advance i g nxt n d now s = (s, Inl ErrTransition))
      \<and> (cp_Generation r = g \<and> allowed (cp_State r) nxt \<longrightarrow>
          (let (s', res) = checkpoint_Advance i g nxt n d now s in
           res = Inr (r\<lparr>cp_State := nxt, cp_ChunkCount := n, cp_Digest := d, cp_UpdatedAt := tUTC now\<rparr>)
           \<and> checkpoint_History i s' = checkpoint_History i s @ [nxt]
           \<and> (\<forall>j. j \<noteq> i \<longrightarrow> checkpoint_Get j s' = checkpoint_Get j s
                \<and> checkpoint_History j s' = checkpoint_History j s))))"
  by (auto simp: checkpoint_defs Let_def gomap_simps split: option.split)

lemma checkpoint_advance_witness:
  "snd (checkpoint_Advance ''s'' 1 Published 0 [] zeroTime
      (fst (checkpoint_Abort ''s'' 1 zeroTime (fst (checkpoint_Start ''s'' ''op'' 1 zeroTime checkpoint_New)))))
    = Inl ErrTransition"
proof -
  let ?s = "fst (checkpoint_Abort ''s'' 1 zeroTime (fst (checkpoint_Start ''s'' ''op'' 1 zeroTime checkpoint_New)))"
  have "\<exists>r. checkpoint_Get ''s'' ?s = Some r \<and> cp_Generation r = 1 \<and> cp_State r = Aborted"
    by (simp add: checkpoint_defs Let_def)
  then show ?thesis
    using checkpoint_advance_spec [where i = "''s''" and s = ?s and g = 1 and nxt = Published and n = 0
      and d = "[]" and now = zeroTime] by fastforce
qed

end
