(* ===== verification/ManifestStore.thy ===== *)
theory ManifestStore
  imports Model Sha256 Contracts
begin

text \<open>
  Package \<open>manifest\<close> (\<open>internal/manifest/store.go\<close>): the published form of a snapshot, with
  a version per snapshot and the SHA-256 of its payload. The codec is \<open>encoding/json\<close>, which is
  an argument of the definitions: \<open>marshal\<close> and \<open>unmarshal\<close>, whose error values are theirs.
  Nothing is assumed of it except where a theorem says so.
\<close>

type_synonym marshal = "Snapshot \<Rightarrow> bytes result"
type_synonym unmarshal = "bytes \<Rightarrow> Snapshot result"

record Envelope =
  env_Version :: u64
  env_Snapshot :: Snapshot
  env_Digest :: string
  env_Published :: time

record ManifestStore =
  man_versions :: "(string, u64) gomap"
  man_payloads :: "(string, bytes) gomap"
  man_entries :: "(string, Envelope) gomap"

definition manifest_New :: ManifestStore where
  "manifest_New = \<lparr>man_versions = mempty, man_payloads = mempty, man_entries = mempty\<rparr>"

definition manifest_Encode :: "marshal \<Rightarrow> Snapshot \<Rightarrow> (bytes \<times> string) result" where
  "manifest_Encode marshal snapshot =
     (case marshal snapshot of
        Inl e \<Rightarrow> Inl e
      | Inr payload \<Rightarrow> Inr (payload, sumHex payload))"

definition manifest_Decode :: "unmarshal \<Rightarrow> bytes \<Rightarrow> Snapshot result" where
  "manifest_Decode unmarshal payload =
     (case unmarshal payload of Inl e \<Rightarrow> Inl e | Inr snapshot \<Rightarrow> Inr snapshot)"

definition manifest_VerifyPayload :: "bytes \<Rightarrow> string \<Rightarrow> error option" where
  "manifest_VerifyPayload payload expected =
     (let actual = sumHex payload in if actual \<noteq> expected then Some ErrDigest else None)"

definition manifest_EqualPayload :: "bytes \<Rightarrow> bytes \<Rightarrow> bool" where
  "manifest_EqualPayload left right \<longleftrightarrow> left = right"

definition manifest_Publish ::
  "marshal \<Rightarrow> Snapshot \<Rightarrow> time \<Rightarrow> ManifestStore \<Rightarrow> ManifestStore \<times> Envelope result" where
  "manifest_Publish marshal snapshot now s =
     (case manifest_Encode marshal snapshot of
        Inl e \<Rightarrow> (s, Inl e)
      | Inr (payload, digest) \<Rightarrow>
          let version = mgetd 0 (man_versions s) (s_ID snapshot) + 1;
              envelope = \<lparr>env_Version = version, env_Snapshot = snapshot, env_Digest = digest,
                env_Published = tUTC now\<rparr>
          in (\<lparr>man_versions = mput (man_versions s) (s_ID snapshot) version,
               man_payloads = mput (man_payloads s) (s_ID snapshot) payload,
               man_entries = mput (man_entries s) (s_ID snapshot) envelope\<rparr>,
              Inr envelope))"

definition manifest_Load :: "string \<Rightarrow> ManifestStore \<Rightarrow> Envelope option" where
  "manifest_Load snapshotID s = mget (man_entries s) snapshotID"

definition manifest_Payload :: "string \<Rightarrow> ManifestStore \<Rightarrow> bytes option" where
  "manifest_Payload snapshotID s = mget (man_payloads s) snapshotID"

text \<open>
  \<open>Verify\<close> reads the entry of an unknown snapshot as the zero \<open>Envelope\<close>; only its
  digest is used.
\<close>

definition manifest_Verify :: "string \<Rightarrow> ManifestStore \<Rightarrow> error option" where
  "manifest_Verify snapshotID s =
     (case mget (man_payloads s) snapshotID of
        None \<Rightarrow> Some ErrManifestMissing
      | Some payload \<Rightarrow> manifest_VerifyPayload payload
          (case mget (man_entries s) snapshotID of None \<Rightarrow> [] | Some e \<Rightarrow> env_Digest e))"

lemmas manifest_defs [step_defs] =
  manifest_New_def manifest_Publish_def manifest_Encode_def manifest_Load_def
  manifest_Payload_def manifest_Verify_def manifest_VerifyPayload_def manifest_Decode_def

fun manifest_step :: "marshal \<Rightarrow> Snapshot \<times> time \<Rightarrow> ManifestStore \<Rightarrow> ManifestStore" where
  "manifest_step marshal (snapshot, now) s = fst (manifest_Publish marshal snapshot now s)"

section \<open>What every published manifest satisfies\<close>

text \<open>
  A snapshot has an envelope exactly when it has a payload; the payload is the encoding of the
  envelope's snapshot, the digest is the payload's, and the version is the counter's.
\<close>

definition manifest_ok :: "marshal \<Rightarrow> ManifestStore \<Rightarrow> bool" where
  "manifest_ok marshal s \<longleftrightarrow> (\<forall>i.
     (mget (man_entries s) i = None \<longrightarrow> mget (man_payloads s) i = None \<and> mgetd 0 (man_versions s) i = 0)
   \<and> (\<forall>e. mget (man_entries s) i = Some e \<longrightarrow>
        s_ID (env_Snapshot e) = i
      \<and> (\<exists>p. mget (man_payloads s) i = Some p \<and> marshal (env_Snapshot e) = Inr p
           \<and> env_Digest e = sumHex p)
      \<and> env_Version e = mgetd 0 (man_versions s) i))"

interpretation manifests: invariant_machine manifest_New "manifest_step marshal" "manifest_ok marshal"
  for marshal
proof
  show "manifest_ok marshal manifest_New" by (simp add: manifest_ok_def manifest_New_def)
next
  fix s and op :: "Snapshot \<times> time"
  assume ok: "manifest_ok marshal s"
  obtain snapshot now where op: "op = (snapshot, now)" by (cases op)
  show "manifest_ok marshal (manifest_step marshal op s)"
  proof (cases "marshal snapshot")
    case (Inl e)
    with ok show ?thesis by (simp add: op manifest_Publish_def manifest_Encode_def)
  next
    case (Inr p)
    with ok show ?thesis
      by (simp add: op manifest_Publish_def manifest_Encode_def manifest_ok_def Let_def gomap_simps)
  qed
qed

text \<open>The version of a snapshot counts its successful publications.\<close>

lemma version_counts:
  "mgetd 0 (man_versions (fold (manifest_step marshal) ops s)) i =
     mgetd 0 (man_versions s) i
     + of_nat (length (filter (\<lambda>(sn, now). s_ID sn = i \<and> (\<exists>p. marshal sn = Inr p)) ops))"
proof (induction ops arbitrary: s)
  case (Cons op ops)
  obtain sn now where "op = (sn, now)" by (cases op)
  then show ?case
    by (cases "marshal sn")
      (simp_all add: Cons manifest_Publish_def manifest_Encode_def Let_def)
qed simp

section \<open>Properties\<close>

text \<open>
  C26: after any sequence of publications, from an empty store, a snapshot that has an envelope
  passes \<open>Verify\<close>; its payload is the encoding of the snapshot in the envelope, so decoding it
  gives the snapshot back wherever the codec does, and the envelope's version is the number of
  times the snapshot was published. A snapshot without one is reported missing.
\<close>

theorem manifest_published_verifies:
  fixes marshal :: marshal and ops :: "(Snapshot \<times> time) list"
  defines "s \<equiv> fold (manifest_step marshal) ops manifest_New"
  shows "case manifest_Load i s of
      None \<Rightarrow> manifest_Verify i s = Some ErrManifestMissing \<and> manifest_Payload i s = None
    | Some e \<Rightarrow> manifest_Verify i s = None
        \<and> s_ID (env_Snapshot e) = i
        \<and> env_Version e = of_nat (length (filter (\<lambda>(sn, now). s_ID sn = i \<and> (\<exists>p. marshal sn = Inr p)) ops))
        \<and> (\<exists>p. manifest_Payload i s = Some p \<and> marshal (env_Snapshot e) = Inr p
            \<and> env_Digest e = sumHex p
            \<and> (unmarshal p = Inr (env_Snapshot e) \<longrightarrow>
                 manifest_Decode unmarshal p = Inr (env_Snapshot e)))"
proof -
  have "manifest_ok marshal s" unfolding s_def by (rule manifests.inv_reached)
  note this [unfolded manifest_ok_def, THEN spec, of i]
  moreover have "mgetd 0 (man_versions s) i =
      of_nat (length (filter (\<lambda>(sn, now). s_ID sn = i \<and> (\<exists>p. marshal sn = Inr p)) ops))"
    by (simp add: s_def version_counts manifest_New_def)
  ultimately show ?thesis
    by (cases "mget (man_entries s) i")
      (auto simp: manifest_Load_def manifest_Verify_def manifest_VerifyPayload_def
        manifest_Payload_def manifest_Decode_def Let_def)
qed

definition sample_snapshot :: "string \<Rightarrow> Snapshot" where
  "sample_snapshot i = \<lparr>s_ID = i, s_BaseID = [], s_Operation = ''op'', s_Generation = 1, s_Full = True,
     s_State = SnapshotPublished, s_Metadata = mempty, s_Chunks = [], s_CreatedAt = zeroTime\<rparr>"

lemma manifest_published_verifies_witness:
  "let marshal = (\<lambda>sn. Inr (bytesOf (s_ID sn)));
       s = fold (manifest_step marshal) [(sample_snapshot ''a'', zeroTime), (sample_snapshot ''a'', zeroTime)]
             manifest_New
   in manifest_Load ''a'' s \<noteq> None \<and> manifest_Verify ''a'' s = None
    \<and> manifest_Decode (\<lambda>p. Inr (sample_snapshot ''a'')) (bytesOf ''a'') = Inr (sample_snapshot ''a'')"
proof -
  let ?m = "\<lambda>sn. Inr (bytesOf (s_ID sn)) :: bytes result"
  let ?ops = "[(sample_snapshot ''a'', zeroTime), (sample_snapshot ''a'', zeroTime)]"
  have "\<exists>e. manifest_Load ''a'' (fold (manifest_step ?m) ?ops manifest_New) = Some e
      \<and> env_Snapshot e = sample_snapshot ''a''"
    by (simp add: manifest_defs sample_snapshot_def Let_def)
  then show ?thesis
    using manifest_published_verifies [where i = "''a''" and marshal = ?m and ops = ?ops
        and unmarshal = "\<lambda>p. Inr (sample_snapshot ''a'')"]
    by (auto simp: Let_def sample_snapshot_def)
qed

text \<open>
  A payload is accepted against a digest exactly when its SHA-256 is that digest; so a payload
  other than the published one that \<open>VerifyPayload\<close> accepts against the envelope's digest is a
  collision of SHA-256 with it, and one of another hash is refused with \<open>ErrDigest\<close>.
\<close>

theorem manifest_substitution_is_collision:
  assumes "manifest_Publish marshal snapshot now s = (s', Inr e)"
    and "manifest_Payload (s_ID snapshot) s' = Some p"
  shows "manifest_VerifyPayload q (env_Digest e) = (if sha256 q = sha256 p then None else Some ErrDigest)
    \<and> manifest_Load (s_ID snapshot) s' = Some e
    \<and> (manifest_VerifyPayload q (env_Digest e) = None \<and> \<not> manifest_EqualPayload q p \<longrightarrow>
         q \<noteq> p \<and> sha256 q = sha256 p)"
  using assms
  by (auto simp: manifest_Publish_def manifest_Encode_def manifest_Payload_def manifest_Load_def
      manifest_VerifyPayload_def manifest_EqualPayload_def Let_def sumHex_eq_iff
      split: sum.splits)

lemma manifest_substitution_witness:
  "let marshal = (\<lambda>sn. Inr (bytesOf (s_ID sn)));
       e = projr (snd (manifest_Publish marshal (sample_snapshot ''a'') zeroTime manifest_New))
   in manifest_VerifyPayload (bytesOf ''a'') (env_Digest e) = None"
proof -
  let ?m = "\<lambda>sn. Inr (bytesOf (s_ID sn)) :: bytes result"
  let ?r = "manifest_Publish ?m (sample_snapshot ''a'') zeroTime manifest_New"
  have "?r = (fst ?r, Inr (projr (snd ?r)))"
    and "manifest_Payload (s_ID (sample_snapshot ''a'')) (fst ?r) = Some (bytesOf ''a'')"
    by (simp_all add: manifest_defs sample_snapshot_def Let_def)
  from manifest_substitution_is_collision [OF this, of "bytesOf ''a''"] show ?thesis
    by (simp add: Let_def)
qed

end
