(* ===== verification/PolicyEngine.thy ===== *)
theory PolicyEngine
  imports Model
begin

text \<open>
  Package \<open>policy\<close> (\<open>internal/policy/engine.go\<close>): the retention and retry policies, with the
  exponential delay of a retry. Durations are \<open>int64\<close>; the doubling wraps where it overflows.
\<close>

record Retention =
  ret_KeepRecent :: int
  ret_ProtectRestores :: bool
  ret_MaximumAge :: duration

record Retry =
  rty_MaximumAttempts :: int
  rty_BaseDelay :: duration
  rty_MaximumDelay :: duration

record Engine =
  eng_retention :: Retention
  eng_retry :: Retry

definition policy_New :: Engine where
  "policy_New = \<lparr>eng_retention = \<lparr>ret_KeepRecent = 2, ret_ProtectRestores = True, ret_MaximumAge = 30 * 24 * Hour\<rparr>,
     eng_retry = \<lparr>rty_MaximumAttempts = 5, rty_BaseDelay = Second, rty_MaximumDelay = 10 * Minute\<rparr>\<rparr>"

definition policy_RetentionPolicy :: "Engine \<Rightarrow> Retention" where
  "policy_RetentionPolicy e = eng_retention e"

definition policy_RetryPolicy :: "Engine \<Rightarrow> Retry" where
  "policy_RetryPolicy e = eng_retry e"

definition policy_ValidateRetention :: "int \<Rightarrow> Engine \<Rightarrow> error option" where
  "policy_ValidateRetention keep e = (if keep < 0 \<or> keep > 10000 then Some ErrPolicy else None)"

definition policy_ValidateRetry :: "RetryTask \<Rightarrow> Engine \<Rightarrow> error option" where
  "policy_ValidateRetry task e =
     (if t_Attempt task < 0 \<or> t_Attempt task > rty_MaximumAttempts (eng_retry e) then Some ErrPolicy
      else if IsZero (t_DueAt task) then Some ErrPolicy
      else None)"

text \<open>The doubling loop, on the number of attempts still to count.\<close>

fun backoff_loop :: "nat \<Rightarrow> duration \<Rightarrow> duration \<Rightarrow> duration" where
  "backoff_loop 0 maximum delay = delay"
| "backoff_loop (Suc n) maximum delay =
     (let delay2 = wrap64 (delay * 2)
      in if delay2 \<ge> maximum then maximum else backoff_loop n maximum delay2)"

definition policy_NextRetry :: "RetryTask \<Rightarrow> time \<Rightarrow> Engine \<Rightarrow> time result" where
  "policy_NextRetry task now e =
     (case policy_ValidateRetry task e of
        Some err \<Rightarrow> Inl err
      | None \<Rightarrow> Inr (tAdd (tUTC now) (backoff_loop (nat (t_Attempt task))
          (rty_MaximumDelay (eng_retry e)) (rty_BaseDelay (eng_retry e)))))"

definition policy_ShouldRetain :: "Snapshot \<Rightarrow> time \<Rightarrow> bool \<Rightarrow> Engine \<Rightarrow> bool" where
  "policy_ShouldRetain snapshot now activeRestore e =
     (if ret_ProtectRestores (eng_retention e) \<and> activeRestore then True
      else if ret_MaximumAge (eng_retention e) \<le> 0 then True
      else tSub now (s_CreatedAt snapshot) \<le> ret_MaximumAge (eng_retention e))"

lemmas policy_defs [step_defs] =
  policy_New_def policy_RetentionPolicy_def policy_RetryPolicy_def policy_ValidateRetention_def
  policy_ValidateRetry_def policy_NextRetry_def policy_ShouldRetain_def

text \<open>
  Below a maximum whose double is an \<open>int64\<close> nothing wraps, and the loop is the capped power of
  two.
\<close>

lemma backoff_loop_min:
  "\<lbrakk> 0 < delay; delay \<le> maximum; in_int64 (2 * maximum) \<rbrakk> \<Longrightarrow>
     backoff_loop n maximum delay = min (delay * 2 ^ n) maximum"
proof (induction n arbitrary: delay)
  case (Suc n)
  have "in_int64 (delay * 2)" using Suc.prems by (auto simp: in_int64_def minInt64_def)
  then have w: "wrap64 (delay * 2) = delay * 2" by (rule wrap64_id)
  show ?case
  proof (cases "delay * 2 \<ge> maximum")
    case True
    have "delay * 2 \<le> delay * 2 ^ Suc n" using Suc.prems(1) by simp
    with True w show ?thesis by (simp del: power_Suc)
  next
    case False
    with Suc.IH [of "delay * 2"] Suc.prems w show ?thesis by (simp add: mult.assoc)
  qed
qed simp

section \<open>Properties\<close>

text \<open>
  C38: the delay before a retry is the base delay doubled once per attempt and capped at the maximum,
  for every policy whose base is positive and at most the maximum and whose maximum can be doubled
  in an \<open>int64\<close>; so it is at least the base, at most the maximum, and does not shrink with the
  attempts. A negative attempt, one above the limit and a task without a due time are refused. The
  program's own policy waits \<open>2 ^ attempt\<close> seconds.
\<close>

theorem policy_backoff_spec:
  assumes "0 < rty_BaseDelay (eng_retry e)" and "rty_BaseDelay (eng_retry e) \<le> rty_MaximumDelay (eng_retry e)"
    and "in_int64 (2 * rty_MaximumDelay (eng_retry e))"
  shows "policy_NextRetry task now e =
      (if 0 \<le> t_Attempt task \<and> t_Attempt task \<le> rty_MaximumAttempts (eng_retry e) \<and> \<not> IsZero (t_DueAt task)
       then Inr (Time (instant now + min (rty_BaseDelay (eng_retry e) * 2 ^ nat (t_Attempt task))
                  (rty_MaximumDelay (eng_retry e))) UTC)
       else Inl ErrPolicy)
    \<and> policy_NextRetry task now policy_New =
      (if 0 \<le> t_Attempt task \<and> t_Attempt task \<le> 5 \<and> \<not> IsZero (t_DueAt task)
       then Inr (Time (instant now + Second * 2 ^ nat (t_Attempt task)) UTC) else Inl ErrPolicy)"
proof -
  have "backoff_loop n (10 * Minute) Second = Second * 2 ^ n" if "n \<le> 5" for n
  proof -
    have "(2::int) ^ n \<le> 2 ^ 5" using that by (intro power_increasing) simp_all
    then show ?thesis
      by (subst backoff_loop_min) (simp_all add: in_int64_def minInt64_def maxInt64_def)
  qed
  then show ?thesis
    using assms
    by (auto simp: policy_NextRetry_def policy_ValidateRetry_def backoff_loop_min tAdd_def policy_New_def
        tUTC_def nat_le_iff)
qed

lemma policy_backoff_witness:
  "policy_NextRetry \<lparr>t_ID = ''r'', t_SnapshotID = ''s'', t_Generation = 1, t_Attempt = 3, t_DueAt = Time 1 UTC\<rparr>
     (Time 7 UTC) policy_New = Inr (Time (7 + 8 * Second) UTC)"
  using policy_backoff_spec [of policy_New
      "\<lparr>t_ID = ''r'', t_SnapshotID = ''s'', t_Generation = 1, t_Attempt = 3, t_DueAt = Time 1 UTC\<rparr>" "Time 7 UTC"]
  by (simp add: policy_New_def in_int64_def minInt64_def maxInt64_def IsZero_def)

text \<open>
  A snapshot is retained exactly when a protected restore uses it, no age limit is set, or its
  age is within the limit; so without a restore, once it is not retained it is never retained later.
\<close>

theorem policy_retention_monotone:
  assumes "instant now \<le> instant later" and "\<not> policy_ShouldRetain sn now False e"
  shows "\<not> policy_ShouldRetain sn later False e
    \<and> policy_ShouldRetain sn later active e = (ret_ProtectRestores (eng_retention e) \<and> active)"
  using assms by (auto simp: policy_ShouldRetain_def tSub_def split: if_splits)

lemma policy_retention_witness:
  "\<not> policy_ShouldRetain \<lparr>s_ID = ''a'', s_BaseID = [], s_Operation = ''op'', s_Generation = 1, s_Full = True,
     s_State = SnapshotPublished, s_Metadata = mempty, s_Chunks = [], s_CreatedAt = zeroTime\<rparr>
     (Time (32 * 24 * Hour) UTC) False policy_New"
  using policy_retention_monotone [of "Time (31 * 24 * Hour) UTC" "Time (32 * 24 * Hour) UTC"
      "\<lparr>s_ID = ''a'', s_BaseID = [], s_Operation = ''op'', s_Generation = 1, s_Full = True,
     s_State = SnapshotPublished, s_Metadata = mempty, s_Chunks = [], s_CreatedAt = zeroTime\<rparr>" policy_New]
  by (simp add: policy_ShouldRetain_def policy_New_def tSub_def minInt64_def maxInt64_def)

end
