(* ===== verification/TimeWindow.thy ===== *)
theory TimeWindow
  imports Model
begin

text \<open>
  The moving window of outcomes that the packages \<open>telemetry\<close>, \<open>replication\<close> and
  \<open>orchestrator\<close> each implement: a list of items, from whose front the items older than the
  window's length are dropped. \<open>first_kept\<close> is the loop of their \<open>pruneLocked\<close>, and the
  locale \<open>time_window\<close> the contract, with what follows from it.
\<close>

fun first_kept :: "('e \<Rightarrow> time) \<Rightarrow> time \<Rightarrow> 'e list \<Rightarrow> nat" where
  "first_kept at cutoff [] = 0"
| "first_kept at cutoff (e # es) = (if at e < cutoff then Suc (first_kept at cutoff es) else 0)"

lemma drop_first_kept: "drop (first_kept at cutoff es) es = dropWhile (\<lambda>e. at e < cutoff) es"
  by (induction es) auto

definition in_time_order :: "('e \<Rightarrow> time) \<Rightarrow> 'e list \<Rightarrow> bool" where
  "in_time_order at es \<longleftrightarrow> sorted (map (\<lambda>e. instant (at e)) es)"

lemma dropWhile_time_order:
  "in_time_order at es \<Longrightarrow> dropWhile (\<lambda>e. at e < cutoff) es = filter (\<lambda>e. \<not> at e < cutoff) es"
proof (induction es)
  case (Cons e es)
  then have "\<forall>x \<in> set es. instant (at e) \<le> instant (at x)" and "in_time_order at es"
    by (auto simp: in_time_order_def)
  moreover from this(1) have "\<not> at e < cutoff \<Longrightarrow> filter (\<lambda>e. \<not> at e < cutoff) es = es"
    by (intro filter_True) auto
  ultimately show ?case using Cons.IH by (cases "at e < cutoff") simp_all
qed simp

locale time_window =
  fixes items :: "'w \<Rightarrow> 'e list"
    and len :: "'w \<Rightarrow> duration"
    and at :: "'e \<Rightarrow> time"
    and prune :: "time \<Rightarrow> 'w \<Rightarrow> 'w"
  assumes items_prune: "items (prune now w) =
      drop (first_kept at (tAdd now (- len w)) (items w)) (items w)"
    and len_prune: "len (prune now w) = len w"
begin

definition horizon :: "time \<Rightarrow> 'w \<Rightarrow> time" where
  "horizon now w = tAdd now (- len w)"

lemma prune_dropWhile: "items (prune now w) = dropWhile (\<lambda>e. at e < horizon now w) (items w)"
  unfolding items_prune horizon_def by (rule drop_first_kept)

text \<open>Only items older than the window are dropped, from the front.\<close>

lemma prune_suffix:
  "\<exists>old. items w = old @ items (prune now w) \<and> (\<forall>e \<in> set old. at e < horizon now w)"
  by (intro exI [of _ "takeWhile (\<lambda>e. at e < horizon now w) (items w)"])
    (auto simp: prune_dropWhile dest: set_takeWhileD)

text \<open>Where the items came in time order, what is kept is exactly what is within the window.\<close>

lemma prune_exact:
  assumes "in_time_order at (items w)"
  shows "items (prune now w) = filter (\<lambda>e. horizon now w \<le> at e) (items w)"
  using dropWhile_time_order [OF assms, of "horizon now w"] by (simp add: prune_dropWhile not_less)

lemma prune_order:
  assumes "in_time_order at (items w)"
  shows "in_time_order at (items (prune now w))"
  using assms by (simp add: prune_exact in_time_order_def sorted_filter)

text \<open>Pruning once, at the later moment, is enough.\<close>

lemma prune_prune:
  assumes "now \<le> later"
  shows "items (prune later (prune now w)) = items (prune later w)"
proof -
  have "dropWhile (\<lambda>e. at e < c') (dropWhile (\<lambda>e. at e < c) es) = dropWhile (\<lambda>e. at e < c') es"
    if "c \<le> c'" for c c' :: time and es
    using that by (induction es) auto
  from this [of "horizon now w" "horizon later w" "items w"] show ?thesis
    using assms by (simp add: prune_dropWhile horizon_def len_prune)
qed

text \<open>An item within the window hides older ones behind it.\<close>

lemma prune_blocked:
  assumes "items w = e # es" and "horizon now w \<le> at e"
  shows "items (prune now w) = items w"
  using assms by (simp add: prune_dropWhile)

end

end
