(* ===== verification/Telemetry.thy ===== *)
theory Telemetry
  imports Complex_Main TimeWindow Contracts "HOL-Library.Signed_Division"
begin

text \<open>
  Package \<open>telemetry\<close> (\<open>internal/telemetry/registry.go\<close>, \<open>window.go\<close>, \<open>health.go\<close>,
  \<open>exporter.go\<close>): counters and latencies per operation, the last events, and the moving window.
  The window reads the host's clock, not the service's; its readings are arguments \<open>wnow\<close>.
  A rate is a quotient of two counts; \<open>float64\<close> is modelled by the exact quotient.
\<close>

record tEvent =
  te_Name :: string
  te_Snapshot :: string
  te_At :: time
  te_Duration :: duration
  te_Succeeded :: bool

section \<open>The window\<close>

record tWindow =
  tw_length :: duration
  tw_events :: "tEvent list"

definition telemetry_NewWindow :: "duration \<Rightarrow> tWindow" where
  "telemetry_NewWindow len = \<lparr>tw_length = (if len \<le> 0 then Minute else len), tw_events = []\<rparr>"

definition telemetry_pruneLocked :: "time \<Rightarrow> tWindow \<Rightarrow> tWindow" where
  "telemetry_pruneLocked now w =
     (let cutoff = tAdd now (- tw_length w)
      in w\<lparr>tw_events := drop (first_kept te_At cutoff (tw_events w)) (tw_events w)\<rparr>)"

definition telemetry_WindowAdd :: "time \<Rightarrow> tEvent \<Rightarrow> tWindow \<Rightarrow> tWindow" where
  "telemetry_WindowAdd wnow event w =
     telemetry_pruneLocked wnow (w\<lparr>tw_events := tw_events w @ [event]\<rparr>)"

definition telemetry_WindowSnapshot :: "time \<Rightarrow> tWindow \<Rightarrow> tWindow \<times> tEvent list" where
  "telemetry_WindowSnapshot wnow w =
     (let w' = telemetry_pruneLocked wnow w
      in (w', sort_by (\<lambda>a b. te_At a < te_At b) (tw_events w')))"

definition telemetry_WindowCounts :: "time \<Rightarrow> tWindow \<Rightarrow> tWindow \<times> nat \<times> nat" where
  "telemetry_WindowCounts wnow w =
     (let (w', evs) = telemetry_WindowSnapshot wnow w
      in (w', length evs, length (filter (\<lambda>e. \<not> te_Succeeded e) evs)))"

definition telemetry_WindowFailureRate :: "time \<Rightarrow> tWindow \<Rightarrow> tWindow \<times> rat" where
  "telemetry_WindowFailureRate wnow w =
     (let (w', total, failures) = telemetry_WindowCounts wnow w
      in (w', if total = 0 then 0 else of_nat failures / of_nat total))"

definition telemetry_WindowHealthy :: "time \<Rightarrow> rat \<Rightarrow> tWindow \<Rightarrow> tWindow \<times> bool" where
  "telemetry_WindowHealthy wnow threshold w =
     (if threshold < 0 \<or> threshold > 1 then (w, False)
      else let (w', rate) = telemetry_WindowFailureRate wnow w in (w', rate \<le> threshold))"

definition telemetry_WindowLength :: "tWindow \<Rightarrow> duration" where
  "telemetry_WindowLength w = tw_length w"

interpretation twindow: time_window tw_events tw_length te_At telemetry_pruneLocked
  by unfold_locales (simp_all add: telemetry_pruneLocked_def Let_def)

section \<open>The registry\<close>

record tRegistry =
  tr_counters :: "(string, u64) gomap"
  tr_latency :: "(string, duration) gomap"
  tr_events :: "tEvent list"
  tr_limit :: int
  tr_window :: tWindow

definition telemetry_New :: "int \<Rightarrow> tRegistry" where
  "telemetry_New limit =
     \<lparr>tr_counters = mempty, tr_latency = mempty, tr_events = [],
      tr_limit = (if limit < 8 then 8 else limit), tr_window = telemetry_NewWindow (5 * Minute)\<rparr>"

definition telemetry_Observe ::
  "time \<Rightarrow> string \<Rightarrow> string \<Rightarrow> time \<Rightarrow> bool \<Rightarrow> time \<Rightarrow> tRegistry \<Rightarrow> tRegistry" where
  "telemetry_Observe wnow name snapshot started succeeded now r =
     (if name = [] then r
      else let d = (if tSub now started < 0 then 0 else tSub now started);
               event = \<lparr>te_Name = name, te_Snapshot = snapshot, te_At = now, te_Duration = d,
                 te_Succeeded = succeeded\<rparr>;
               events = tr_events r @ [event]
           in r\<lparr>tr_counters := mput (tr_counters r) name (mgetd 0 (tr_counters r) name + 1),
                tr_latency := mput (tr_latency r) name (wrap64 (mgetd 0 (tr_latency r) name + d)),
                tr_window := telemetry_WindowAdd wnow event (tr_window r),
                tr_events := (if int (length events) > tr_limit r
                  then drop (length events - nat (tr_limit r)) events else events)\<rparr>)"

definition telemetry_Count :: "string \<Rightarrow> tRegistry \<Rightarrow> u64" where
  "telemetry_Count name r = mgetd 0 (tr_counters r) name"

definition telemetry_Events :: "tRegistry \<Rightarrow> tEvent list" where
  "telemetry_Events r = tr_events r"

definition telemetry_FailureCount :: "string \<Rightarrow> tRegistry \<Rightarrow> u64" where
  "telemetry_FailureCount name r =
     of_nat (length (filter (\<lambda>e. te_Name e = name \<and> \<not> te_Succeeded e) (tr_events r)))"

text \<open>The count is converted to an \<open>int64\<close>, and the division truncates.\<close>

definition telemetry_AverageLatency :: "string \<Rightarrow> tRegistry \<Rightarrow> duration" where
  "telemetry_AverageLatency name r =
     (let n = mgetd 0 (tr_counters r) name
      in if n = 0 then 0 else wrap64 (mgetd 0 (tr_latency r) name sdiv sint n))"

definition telemetry_Names :: "tRegistry \<Rightarrow> string list" where
  "telemetry_Names r = sort (mkeys (tr_counters r))"

section \<open>Health\<close>

record Health =
  he_At :: time
  he_EventsInWindow :: nat
  he_Counters :: "(string, u64) gomap"
  he_AverageLatency :: "(string, int) gomap"
  he_RecentFailures :: "tEvent list"

fun health_loop ::
  "tRegistry \<Rightarrow> string list \<Rightarrow> (string, u64) gomap \<times> (string, int) gomap \<Rightarrow> (string, u64) gomap \<times> (string, int) gomap" where
  "health_loop r [] acc = acc"
| "health_loop r (name # names) (cs, ls) =
     health_loop r names (mput cs name (telemetry_Count name r), mput ls name (telemetry_AverageLatency name r))"

definition telemetry_HealthSnapshot :: "time \<Rightarrow> tRegistry \<Rightarrow> Health" where
  "telemetry_HealthSnapshot now r =
     (let (cs, ls) = health_loop r (telemetry_Names r) (mempty, mempty)
      in \<lparr>he_At = now, he_EventsInWindow = length (telemetry_Events r), he_Counters = cs,
          he_AverageLatency = ls,
          he_RecentFailures = sort_by (\<lambda>a b. te_At a < te_At b)
            (filter (\<lambda>e. \<not> te_Succeeded e) (telemetry_Events r))\<rparr>)"

text \<open>\<open>MarshalHealth\<close> with the encoder of \<open>encoding/json\<close> as an argument.\<close>

definition telemetry_MarshalHealth :: "(Health \<Rightarrow> bytes result) \<Rightarrow> Health \<Rightarrow> bytes result" where
  "telemetry_MarshalHealth marshal h =
     (if IsZero (he_At h) then Inl (Errorf ''health timestamp is required'') else marshal h)"

definition telemetry_FailureRate :: "tRegistry \<Rightarrow> string \<Rightarrow> rat" where
  "telemetry_FailureRate r name =
     (if telemetry_Count name r = 0 then 0
      else of_nat (length (filter (\<lambda>e. te_Name e = name \<and> \<not> te_Succeeded e) (telemetry_Events r)))
           / of_nat (unat (telemetry_Count name r)))"

definition telemetry_Healthy :: "tRegistry \<Rightarrow> string \<Rightarrow> rat \<Rightarrow> bool" where
  "telemetry_Healthy r name threshold =
     (if threshold < 0 \<or> threshold > 1 then False else telemetry_FailureRate r name \<le> threshold)"

section \<open>Runs of observations\<close>

record observation =
  ob_name :: string
  ob_snapshot :: string
  ob_started :: time
  ob_succeeded :: bool
  ob_now :: time
  ob_wnow :: time

definition observe :: "observation \<Rightarrow> tRegistry \<Rightarrow> tRegistry" where
  "observe o' r = telemetry_Observe (ob_wnow o') (ob_name o') (ob_snapshot o') (ob_started o')
     (ob_succeeded o') (ob_now o') r"

definition event_of :: "observation \<Rightarrow> tEvent" where
  "event_of o' = \<lparr>te_Name = ob_name o', te_Snapshot = ob_snapshot o', te_At = ob_now o',
     te_Duration = max 0 (tSub (ob_now o') (ob_started o')), te_Succeeded = ob_succeeded o'\<rparr>"

definition last_n :: "nat \<Rightarrow> 'a list \<Rightarrow> 'a list" where
  "last_n n xs = drop (length xs - n) xs"

lemma last_n_snoc: "0 < n \<Longrightarrow> last_n n (last_n n xs @ [x]) = last_n n (xs @ [x])"
  by (cases "length xs < n") (auto simp: last_n_def drop_Suc not_less Suc_diff_le)

lemma observe_named:
  assumes "ob_name o' \<noteq> []" and "0 \<le> tr_limit r"
  shows "tr_events (observe o' r) = last_n (nat (tr_limit r)) (tr_events r @ [event_of o'])"
    and "tr_limit (observe o' r) = tr_limit r"
    and "telemetry_Count name (observe o' r) =
      telemetry_Count name r + (if name = ob_name o' then 1 else 0)"
  using assms
  by (auto simp: observe_def telemetry_Observe_def Let_def event_of_def last_n_def telemetry_Count_def
      max_def not_less nat_less_iff)

lemma observe_unnamed: "ob_name o' = [] \<Longrightarrow> observe o' r = r"
  by (simp add: observe_def telemetry_Observe_def)

definition named :: "observation list \<Rightarrow> observation list" where
  "named obs = filter (\<lambda>o'. ob_name o' \<noteq> []) obs"

lemma observe_run:
  assumes "0 < tr_limit r" and "tr_events r = last_n (nat (tr_limit r)) evs"
  shows "tr_events (fold observe obs r) = last_n (nat (tr_limit r)) (evs @ map event_of (named obs))
    \<and> tr_limit (fold observe obs r) = tr_limit r
    \<and> telemetry_Count name (fold observe obs r) =
      telemetry_Count name r + of_nat (length (filter (\<lambda>o'. ob_name o' = name) (named obs)))"
  using assms
proof (induction obs arbitrary: r evs)
  case (Cons o' obs)
  show ?case
  proof (cases "ob_name o' = []")
    case True
    with Cons show ?thesis by (simp add: observe_unnamed named_def)
  next
    case False
    let ?r = "observe o' r"
    have "tr_events ?r = last_n (nat (tr_limit r)) (last_n (nat (tr_limit r)) evs @ [event_of o'])"
      and l: "tr_limit ?r = tr_limit r"
      and c: "telemetry_Count name ?r = telemetry_Count name r + (if name = ob_name o' then 1 else 0)"
      using observe_named [OF False, of r] Cons.prems by simp_all
    then have "tr_events ?r = last_n (nat (tr_limit ?r)) (evs @ [event_of o'])"
      using Cons.prems(1) by (simp add: last_n_snoc)
    from Cons.IH [OF _ this] False l c Cons.prems(1) show ?thesis
      by (simp add: named_def)
  qed
qed (simp add: named_def)

section \<open>Properties\<close>

text \<open>
  C39: after any sequence of observations (those without a name are ignored) the registry holds the
  last \<open>limit\<close> events, in order, with the limit raised to at least 8, and the counter of each
  name is the number of its observations, modulo \<open>2^64\<close>; \<open>FailureCount\<close> counts the failures
  among the held events only.
\<close>

theorem telemetry_bounded_history:
  "let r = fold observe obs (telemetry_New limit); n = nat (max 8 limit);
       held = last_n n (map event_of (named obs)) in
     telemetry_Events r = held \<and> length (telemetry_Events r) \<le> n
   \<and> telemetry_Count name r = of_nat (length (filter (\<lambda>o'. ob_name o' = name) (named obs)))
   \<and> telemetry_FailureCount name r =
       of_nat (length (filter (\<lambda>e. te_Name e = name \<and> \<not> te_Succeeded e) held))"
proof -
  have l: "tr_limit (telemetry_New limit) = max 8 limit" "tr_events (telemetry_New limit) = []"
    "telemetry_Count name (telemetry_New limit) = 0"
    by (simp_all add: telemetry_New_def max_def telemetry_Count_def)
  show ?thesis
    using observe_run [of "telemetry_New limit" "[]" obs name] l
    by (simp add: Let_def telemetry_Events_def telemetry_FailureCount_def last_n_def)
qed

text \<open>
  \<open>FailureRate\<close> divides the failures among the held events by all observations ever made.
  Where every observation of an operation failed, the rate is \<open>limit / n\<close> after \<open>n\<close> of
  them: it sinks as the outage goes on, and the operation becomes healthy for any threshold above
  zero.
\<close>

theorem telemetry_failure_rate_sinks:
  fixes o' :: observation
  assumes "ob_name o' = name" and "name \<noteq> []" and "\<not> ob_succeeded o'"
    and "nat (max 8 limit) \<le> n" and "n < 2 ^ 64"
  shows "telemetry_FailureRate (fold observe (replicate n o') (telemetry_New limit)) name
      = of_nat (nat (max 8 limit)) / of_nat n
    \<and> (of_nat (nat (max 8 limit)) / of_nat n \<le> threshold \<and> threshold \<le> 1 \<longrightarrow>
        telemetry_Healthy (fold observe (replicate n o') (telemetry_New limit)) name threshold)"
proof -
  let ?r = "fold observe (replicate n o') (telemetry_New limit)" and ?l = "nat (max 8 limit)"
  have named: "named (replicate n o') = replicate n o'"
    using assms(1,2) by (simp add: named_def filter_id_conv)
  have l: "tr_limit (telemetry_New limit) = max 8 limit" "tr_events (telemetry_New limit) = []"
    "telemetry_Count name (telemetry_New limit) = 0"
    by (simp_all add: telemetry_New_def max_def telemetry_Count_def)
  have ev: "telemetry_Events ?r = last_n ?l (replicate n (event_of o'))"
    and cnt: "telemetry_Count name ?r = of_nat n"
    using observe_run [of "telemetry_New limit" "[]" "replicate n o'" name] l named assms(1)
    by (simp_all add: telemetry_Events_def last_n_def)
  have "last_n ?l (replicate n (event_of o')) = replicate ?l (event_of o')"
    using assms(4) by (simp add: last_n_def)
  moreover have un: "unat (of_nat n :: u64) = n"
    using assms(5) by (simp add: unat_of_nat take_bit_nat_eq_self)
  moreover have "0 < n" using assms(4) by (simp add: max_def split: if_splits)
  with un have "(of_nat n :: u64) \<noteq> 0" by auto
  ultimately have rate: "telemetry_FailureRate ?r name = of_nat ?l / of_nat n"
    unfolding telemetry_FailureRate_def ev cnt using assms(1,3) by (simp add: event_of_def)
  have "0 \<le> (of_nat ?l / of_nat n :: rat)" by (intro divide_nonneg_nonneg) (simp_all only: of_nat_0_le_iff)
  then have "of_nat ?l / of_nat n \<le> threshold \<Longrightarrow> 0 \<le> threshold" by (rule order_trans)
  then show ?thesis
    unfolding telemetry_Healthy_def rate by (metis not_less)
qed

definition failing :: observation where
  "failing = \<lparr>ob_name = ''capture'', ob_snapshot = ''s'', ob_started = zeroTime, ob_succeeded = False,
     ob_now = zeroTime, ob_wnow = zeroTime\<rparr>"

lemma telemetry_failure_rate_witness:
  "telemetry_FailureRate (fold observe (replicate 6400 failing) (telemetry_New 64)) ''capture'' = 1 / 100"
  using telemetry_failure_rate_sinks [of failing "''capture''" 64 6400]
  by (simp add: failing_def)

end
