(* ===== verification/ReplBudget.thy ===== *)
theory ReplBudget
  imports Model Contracts
begin

text \<open>
  \<open>internal/replication/budget.go\<close>: the byte budget of replication, with a reservation per plan.
  \<open>quota\<close> states what the dispatcher relies on; \<open>Budget\<close> implements it as long as the sum of
  what is used and what is asked for is an \<open>int64\<close>. Where it is not, the comparison with the
  limit is made on the wrapped sum.
\<close>

record Budget =
  bud_limit :: int
  bud_reservations :: "(string, int) gomap"
  bud_used :: int

definition budget_NewBudget :: "int \<Rightarrow> Budget" where
  "budget_NewBudget limit =
     \<lparr>bud_limit = (if limit < 0 then 0 else limit), bud_reservations = mempty, bud_used = 0\<rparr>"

definition budget_Reserve :: "string \<Rightarrow> int \<Rightarrow> Budget \<Rightarrow> Budget \<times> bool" where
  "budget_Reserve planID bytes b =
     (if planID = [] \<or> bytes \<le> 0 then (b, False)
      else if mget (bud_reservations b) planID \<noteq> None then (b, False)
      else if wrap64 (bud_used b + bytes) > bud_limit b then (b, False)
      else (b\<lparr>bud_reservations := mput (bud_reservations b) planID bytes,
              bud_used := wrap64 (bud_used b + bytes)\<rparr>, True))"

definition budget_HasReservation :: "string \<Rightarrow> Budget \<Rightarrow> bool" where
  "budget_HasReservation planID b \<longleftrightarrow> planID \<noteq> [] \<and> mget (bud_reservations b) planID \<noteq> None"

definition budget_Snapshot :: "Budget \<Rightarrow> int \<times> int \<times> nat" where
  "budget_Snapshot b = (bud_used b, bud_limit b, mlen (bud_reservations b))"

definition budget_Release :: "string \<Rightarrow> Budget \<Rightarrow> Budget \<times> int" where
  "budget_Release planID b =
     (let bytes = mgetd 0 (bud_reservations b) planID in
      if bytes = 0 then (b, 0)
      else let used = wrap64 (bud_used b - bytes)
           in (b\<lparr>bud_reservations := mdel (bud_reservations b) planID,
                 bud_used := (if used < 0 then 0 else used)\<rparr>, bytes))"

definition budget_Used :: "Budget \<Rightarrow> int" where
  "budget_Used b = bud_used b"

definition budget_Limit :: "Budget \<Rightarrow> int" where
  "budget_Limit b = bud_limit b"

lemmas budget_defs [step_defs] =
  budget_NewBudget_def budget_Reserve_def budget_HasReservation_def budget_Release_def budget_Used_def

section \<open>The contract\<close>

locale quota =
  fixes inv :: "'b \<Rightarrow> bool"
    and held :: "'b \<Rightarrow> 'k \<Rightarrow> int option"
    and used :: "'b \<Rightarrow> int"
    and bound :: "'b \<Rightarrow> int"
    and fits :: "'b \<Rightarrow> int \<Rightarrow> bool"
    and reserve :: "'k \<Rightarrow> int \<Rightarrow> 'b \<Rightarrow> 'b \<times> bool"
    and release :: "'k \<Rightarrow> 'b \<Rightarrow> 'b \<times> int"
  assumes within: "inv b \<Longrightarrow> 0 \<le> used b \<and> used b \<le> bound b"
    and refused: "reserve k n b = (b', False) \<Longrightarrow> b' = b"
    and granted: "\<lbrakk> inv b; fits b n; reserve k n b = (b', True) \<rbrakk> \<Longrightarrow>
      inv b' \<and> 0 < n \<and> held b k = None \<and> held b' = (held b)(k \<mapsto> n)
      \<and> used b' = used b + n \<and> bound b' = bound b"
    and released: "\<lbrakk> inv b; release k b = (b', n) \<rbrakk> \<Longrightarrow>
      inv b' \<and> held b' = (held b)(k := None) \<and> used b' = used b - n \<and> bound b' = bound b
      \<and> n = (case held b k of None \<Rightarrow> 0 | Some m \<Rightarrow> m)"
begin

text \<open>A reservation that is released leaves no trace.\<close>

lemma reserve_release:
  assumes "inv b" and "fits b n" and "reserve k n b = (b1, True)" and "release k b1 = (b2, m)"
  shows "held b2 = held b \<and> used b2 = used b \<and> bound b2 = bound b \<and> m = n"
proof -
  have 1: "inv b1" "held b k = None" "held b1 = (held b)(k \<mapsto> n)" "used b1 = used b + n" "bound b1 = bound b"
    using granted [OF assms(1-3)] by auto
  have "held b2 = (held b1)(k := None)" "used b2 = used b1 - m" "bound b2 = bound b1" "m = n"
    using released [OF 1(1) assms(4)] 1(3) by auto
  with 1 show ?thesis by (auto simp: fun_eq_iff)
qed

text \<open>Releasing twice is releasing once.\<close>

lemma release_release:
  assumes "inv b" and "release k b = (b1, n)" and "release k b1 = (b2, m)"
  shows "held b2 = held b1 \<and> used b2 = used b1 \<and> m = 0"
proof -
  have 1: "inv b1" "held b1 = (held b)(k := None)" using released [OF assms(1,2)] by auto
  then show ?thesis using released [OF 1(1) assms(3)] by auto
qed

lemma used_bounded: "\<lbrakk> inv b; fits b n; reserve k n b = (b', True) \<rbrakk> \<Longrightarrow> used b + n \<le> bound b"
  using granted within by metis

end

section \<open>The budget\<close>

text \<open>What is used is the sum of the reservations, which are positive, and within the limit.\<close>

definition budget_ok :: "Budget \<Rightarrow> bool" where
  "budget_ok b \<longleftrightarrow> bud_used b = sum_list (mvals (bud_reservations b))
     \<and> (\<forall>k n. mget (bud_reservations b) k = Some n \<longrightarrow> 0 < n)
     \<and> bud_used b \<le> bud_limit b \<and> in_int64 (bud_limit b)"

lemma mvals_pos:
  assumes "\<forall>k n. mget m k = Some n \<longrightarrow> 0 < (n :: int)"
  shows "0 \<le> sum_list (mvals m)"
    and "mget m k = Some n \<Longrightarrow> n \<le> sum_list (mvals m)"
proof -
  have "\<forall>x \<in> set (mvals m). 0 < x" using assms unfolding Ball_def mvals_set by blast
  then show "0 \<le> sum_list (mvals m)" by (intro sum_list_nonneg) auto
  assume k: "mget m k = Some n"
  have "\<forall>x \<in> set (mvals (mdel m k)). 0 < x"
    using assms unfolding Ball_def mvals_set mget_mdel by (auto split: if_splits)
  then have "0 \<le> sum_list (mvals (mdel m k))" by (intro sum_list_nonneg) auto
  then show "n \<le> sum_list (mvals m)" by (simp add: sum_mdel [OF k])
qed

lemma budget_ok_used: "budget_ok b \<Longrightarrow> 0 \<le> bud_used b"
  using mvals_pos(1) [of "bud_reservations b"] by (simp add: budget_ok_def)

lemma wrap64_fit: "\<lbrakk> 0 \<le> x; x \<le> y; in_int64 y \<rbrakk> \<Longrightarrow> wrap64 x = x"
  by (rule wrap64_id) (auto simp: in_int64_def minInt64_def)

lemma budget_Release_spec:
  assumes ok: "budget_ok b" and r: "budget_Release k b = (b', n)"
  shows "budget_ok b' \<and> bud_reservations b' = mdel (bud_reservations b) k
    \<and> bud_used b' = bud_used b - n \<and> bud_limit b' = bud_limit b
    \<and> n = mgetd 0 (bud_reservations b) k"
proof (cases "mget (bud_reservations b) k")
  case None
  with r show ?thesis using ok by (auto simp: budget_Release_def mdel_absent)
next
  case (Some m)
  have pos: "0 < m" "m \<le> bud_used b"
    using ok Some mvals_pos(2) [of "bud_reservations b" k m] by (auto simp: budget_ok_def)
  then have w: "wrap64 (bud_used b - m) = bud_used b - m"
    using ok by (intro wrap64_fit [of _ "bud_limit b"]) (simp_all add: budget_ok_def)
  have "n = m" and b': "b' = b\<lparr>bud_reservations := mdel (bud_reservations b) k, bud_used := bud_used b - m\<rparr>"
    using r Some pos w by (auto simp: budget_Release_def Let_def)
  moreover have "bud_used b - m \<le> bud_limit b" using ok pos by (simp add: budget_ok_def)
  then have "budget_ok b'"
    using ok Some by (auto simp: budget_ok_def b' sum_mdel gomap_simps split: if_splits)
  ultimately show ?thesis using Some by simp
qed

interpretation budget: quota budget_ok "\<lambda>b. mget (bud_reservations b)" bud_used bud_limit
  "\<lambda>b n. in_int64 (bud_used b + n)" budget_Reserve budget_Release
proof
  fix b :: Budget assume "budget_ok b"
  then show "0 \<le> bud_used b \<and> bud_used b \<le> bud_limit b"
    using budget_ok_used [of b] by (simp add: budget_ok_def)
next
  fix k n b b' assume "budget_Reserve k n b = (b', False)"
  then show "b' = b" by (auto simp: budget_Reserve_def split: if_splits)
next
  fix b n k b'
  assume "budget_ok b" "in_int64 (bud_used b + n)" "budget_Reserve k n b = (b', True)"
  then show "budget_ok b' \<and> 0 < n \<and> mget (bud_reservations b) k = None
      \<and> mget (bud_reservations b') = (mget (bud_reservations b))(k \<mapsto> n)
      \<and> bud_used b' = bud_used b + n \<and> bud_limit b' = bud_limit b"
    by (auto simp: budget_Reserve_def budget_ok_def wrap64_id sum_mput_new gomap_simps fun_eq_iff
        split: if_splits)
next
  fix b k b' n
  assume "budget_ok b" "budget_Release k b = (b', n)"
  from budget_Release_spec [OF this]
  show "budget_ok b' \<and> mget (bud_reservations b') = (mget (bud_reservations b))(k := None)
      \<and> bud_used b' = bud_used b - n \<and> bud_limit b' = bud_limit b
      \<and> n = (case mget (bud_reservations b) k of None \<Rightarrow> 0 | Some m \<Rightarrow> m)"
    by (simp add: mgetd_def fun_eq_iff gomap_simps)
qed

lemma budget_ok_New: "in_int64 limit \<Longrightarrow> budget_ok (budget_NewBudget limit)"
  by (auto simp: budget_ok_def budget_NewBudget_def in_int64_def minInt64_def maxInt64_def)

datatype budget_op = BReserve string int | BRelease string

fun budget_step :: "budget_op \<Rightarrow> Budget \<Rightarrow> Budget" where
  "budget_step (BReserve k n) b = fst (budget_Reserve k n b)"
| "budget_step (BRelease k) b = fst (budget_Release k b)"

text \<open>The requests whose sum with the limit is an \<open>int64\<close>, so that no sum can wrap.\<close>

fun small_request :: "int \<Rightarrow> budget_op \<Rightarrow> bool" where
  "small_request limit (BReserve k n) \<longleftrightarrow> limit + n \<le> maxInt64"
| "small_request limit (BRelease k) \<longleftrightarrow> True"

lemma budget_ok_step:
  assumes "budget_ok b" and "small_request (bud_limit b) op"
  shows "budget_ok (budget_step op b) \<and> bud_limit (budget_step op b) = bud_limit b"
proof (cases op)
  case (BReserve k n)
  show ?thesis
  proof (cases "snd (budget_Reserve k n b)")
    case True
    then have n: "0 < n" by (auto simp: budget_Reserve_def split: if_splits)
    have f: "in_int64 (bud_used b + n)"
      using assms budget_ok_used [OF assms(1)] BReserve n
      by (auto simp: budget_ok_def in_int64_def minInt64_def)
    show ?thesis
      using budget.granted [OF assms(1) f, of k "fst (budget_Reserve k n b)"] True BReserve
      by (simp add: prod_eq_iff)
  next
    case False
    then have "fst (budget_Reserve k n b) = b"
      using budget.refused [of k n b] by (metis (full_types) prod.collapse)
    with assms BReserve show ?thesis by simp
  qed
next
  case (BRelease k)
  with budget_Release_spec [OF assms(1), of k "fst (budget_Release k b)" "snd (budget_Release k b)"]
  show ?thesis by simp
qed

lemma budget_ok_run:
  "\<lbrakk> budget_ok b; \<forall>op \<in> set ops. small_request (bud_limit b) op \<rbrakk> \<Longrightarrow>
     budget_ok (fold budget_step ops b) \<and> bud_limit (fold budget_step ops b) = bud_limit b"
  by (induction ops arbitrary: b) (auto simp: budget_ok_step)

section \<open>Properties\<close>

text \<open>
  C30: whatever reservations and releases happen, in any order and for any plans, what is used is
  the sum of the reservations that stand and never exceeds the limit; each standing reservation is
  positive. This holds for requests whose sum with the limit is an \<open>int64\<close>.
\<close>

theorem budget_accounts:
  assumes "in_int64 limit" and "\<forall>op \<in> set ops. small_request (max 0 limit) op"
  shows "let b = fold budget_step ops (budget_NewBudget limit) in
      budget_Used b = sum_list (mvals (bud_reservations b))
    \<and> 0 \<le> budget_Used b \<and> budget_Used b \<le> max 0 limit \<and> budget_Limit b = max 0 limit
    \<and> (\<forall>k n. mget (bud_reservations b) k = Some n \<longrightarrow> 0 < n)"
proof -
  have l: "bud_limit (budget_NewBudget limit) = max 0 limit"
    by (simp add: budget_NewBudget_def)
  have "budget_ok (fold budget_step ops (budget_NewBudget limit))
      \<and> bud_limit (fold budget_step ops (budget_NewBudget limit)) = max 0 limit"
    using budget_ok_run [OF budget_ok_New [OF assms(1)], of ops] assms(2) l by simp
  then show ?thesis
    using budget_ok_used by (auto simp: Let_def budget_ok_def budget_Used_def budget_Limit_def)
qed

lemma budget_accounts_witness:
  "let b = fold budget_step [BReserve ''p'' 60, BReserve ''q'' 50, BReserve ''r'' 30, BRelease ''p''] (budget_NewBudget 100)
   in budget_Used b = 30 \<and> budget_Used b \<le> 100"
proof -
  let ?ops = "[BReserve ''p'' 60, BReserve ''q'' 50, BReserve ''r'' 30, BRelease ''p'']"
  have "in_int64 100" "\<forall>op \<in> set ?ops. small_request (max 0 100) op"
    by (simp_all add: in_int64_def minInt64_def maxInt64_def)
  from budget_accounts [OF this] have "budget_Used (fold budget_step ?ops (budget_NewBudget 100)) \<le> 100"
    by (simp add: Let_def)
  then show ?thesis
    by (simp add: Let_def budget_defs wrap64_def)
qed

text \<open>
  Where the sum is not an \<open>int64\<close> it wraps to a negative number and passes the comparison:
  any request above \<open>MaxInt64\<close> minus what is used is granted, whatever the limit, and leaves the
  budget with a negative use, so that later requests up to the whole range are granted too.
\<close>

theorem budget_overflow_granted:
  assumes "budget_ok b" and "k \<noteq> []" and "mget (bud_reservations b) k = None"
    and "n \<le> maxInt64" and "maxInt64 < bud_used b + n"
  shows "\<exists>b'. budget_Reserve k n b = (b', True) \<and> budget_Used b' < 0
    \<and> bud_limit b < bud_used b + n"
proof -
  have "bud_used b \<le> maxInt64" using assms(1) by (auto simp: budget_ok_def in_int64_def)
  moreover have "0 \<le> bud_used b" by (rule budget_ok_used [OF assms(1)])
  ultimately have "0 < n" using assms(5) by linarith
  have "wrap64 (bud_used b + n) = bud_used b + n - 2 ^ 64"
    using assms(4,5) \<open>bud_used b \<le> maxInt64\<close> by (intro wrap64_over) simp_all
  then have "wrap64 (bud_used b + n) < 0"
    using assms(4) \<open>bud_used b \<le> maxInt64\<close> by (simp add: maxInt64_def)
  moreover have "0 \<le> bud_limit b" "bud_limit b \<le> maxInt64"
    using assms(1) \<open>0 \<le> bud_used b\<close> by (auto simp: budget_ok_def in_int64_def)
  ultimately show ?thesis
    using assms \<open>0 < n\<close> by (auto simp: budget_Reserve_def budget_Used_def)
qed

lemma budget_overflow_witness:
  "\<exists>b'. budget_Reserve ''q'' maxInt64 (fst (budget_Reserve ''p'' 1 (budget_NewBudget (2 ^ 30)))) = (b', True)"
proof -
  let ?b = "fst (budget_Reserve ''p'' 1 (budget_NewBudget (2 ^ 30)))"
  have "budget_ok ?b"
    using budget_ok_step [of "budget_NewBudget (2 ^ 30)" "BReserve ''p'' 1"] budget_ok_New [of "2 ^ 30"]
    by (simp add: in_int64_def minInt64_def maxInt64_def budget_NewBudget_def)
  then show ?thesis
    using budget_overflow_granted [of ?b "''q''" maxInt64]
    by (auto simp: budget_defs wrap64_def maxInt64_def)
qed

end
