(* ===== verification/ReplPlanner.thy ===== *)
theory ReplPlanner
  imports Model
begin

text \<open>
  \<open>internal/replication/registry.go\<close> and \<open>planner.go\<close>: the destinations and the plan of a
  replication. \<open>Register\<close> reads the host's clock for a destination without a time of update; the
  reading is an argument. The texts of the errors are the ones \<open>fmt.Errorf\<close> builds.
\<close>

section \<open>Destinations\<close>

record Destination =
  de_ID :: string
  de_Region :: string
  de_Capacity :: int
  de_Healthy :: bool
  de_UpdatedAt :: time

record rRegistry =
  rr_destinations :: "(string, Destination) gomap"

definition registry_NewRegistry :: rRegistry where
  "registry_NewRegistry = \<lparr>rr_destinations = mempty\<rparr>"

definition registry_Register :: "time \<Rightarrow> Destination \<Rightarrow> rRegistry \<Rightarrow> rRegistry \<times> bool" where
  "registry_Register hostNow destination r =
     (if de_ID destination = [] \<or> de_Capacity destination \<le> 0 then (r, False)
      else let d = (if IsZero (de_UpdatedAt destination)
                    then destination\<lparr>de_UpdatedAt := tUTC hostNow\<rparr> else destination)
           in (r\<lparr>rr_destinations := mput (rr_destinations r) (de_ID d) d\<rparr>, True))"

definition registry_MarkHealth :: "string \<Rightarrow> bool \<Rightarrow> time \<Rightarrow> rRegistry \<Rightarrow> rRegistry \<times> bool" where
  "registry_MarkHealth i healthy now r =
     (case mget (rr_destinations r) i of
        None \<Rightarrow> (r, False)
      | Some d \<Rightarrow> (r\<lparr>rr_destinations := mput (rr_destinations r) i
          (d\<lparr>de_Healthy := healthy, de_UpdatedAt := tUTC now\<rparr>)\<rparr>, True))"

definition region_before :: "Destination \<Rightarrow> Destination \<Rightarrow> bool" where
  "region_before a b =
     (if de_Region a = de_Region b then de_ID a < de_ID b else de_Region a < de_Region b)"

definition registry_Eligible :: "int \<Rightarrow> rRegistry \<Rightarrow> Destination list" where
  "registry_Eligible required r =
     (if required \<le> 0 then []
      else sort_by region_before
        (filter (\<lambda>d. de_Healthy d \<and> de_Capacity d \<ge> required) (mvals (rr_destinations r))))"

definition registry_Snapshot :: "rRegistry \<Rightarrow> Destination list" where
  "registry_Snapshot r = sort_by (\<lambda>a b. de_ID a < de_ID b) (mvals (rr_destinations r))"

datatype registry_op = DRegister time Destination | DMarkHealth string bool time

fun registry_step :: "registry_op \<Rightarrow> rRegistry \<Rightarrow> rRegistry" where
  "registry_step (DRegister t d) r = fst (registry_Register t d r)"
| "registry_step (DMarkHealth i h t) r = fst (registry_MarkHealth i h t r)"

section \<open>Plans\<close>

record ChunkPlan =
  cp_Index :: int
  cp_CDigest :: string
  cp_Bytes :: int

record Plan =
  pl_ID :: string
  pl_SnapshotID :: string
  pl_Generation :: u64
  pl_Destinations :: "Destination list"
  pl_Chunks :: "ChunkPlan list"
  pl_TotalBytes :: int
  pl_CreatedAtUnix :: int

definition zeroPlan :: Plan where
  "zeroPlan = \<lparr>pl_ID = [], pl_SnapshotID = [], pl_Generation = 0, pl_Destinations = [], pl_Chunks = [],
     pl_TotalBytes = 0, pl_CreatedAtUnix = 0\<rparr>"

definition planID :: "string \<Rightarrow> u64 \<Rightarrow> string" where
  "planID snapshotID generation = ''rep-'' @ snapshotID @ ''-'' @ showU64 generation"

definition planableSnapshotState :: "Snapshot \<Rightarrow> string \<times> error option" where
  "planableSnapshotState snapshot =
     (case s_State snapshot of
        SnapshotExpired \<Rightarrow> (stateString (s_State snapshot),
          Some (Errorf (''replication: snapshot '' @ s_ID snapshot @ '' is expired and not planable'')))
      | SnapshotOther st \<Rightarrow> (st,
          Some (Errorf (''replication: snapshot '' @ s_ID snapshot @ '' has unknown state '' @ st)))
      | st \<Rightarrow> (stateString st, None))"

definition validatePlanableSnapshot :: "Snapshot \<Rightarrow> error option" where
  "validatePlanableSnapshot snapshot =
     (if s_ID snapshot = [] then Some (Errorf ''replication: snapshot id is empty'')
      else if s_Chunks snapshot = [] then Some (Errorf ''replication: snapshot has no chunks'')
      else snd (planableSnapshotState snapshot))"

definition joinWith :: "string \<Rightarrow> string list \<Rightarrow> string" where
  "joinWith sep xs = (case xs of [] \<Rightarrow> [] | y # ys \<Rightarrow> y @ concat (map (\<lambda>z. sep @ z) ys))"

definition validateDestinationCapacity :: "Destination list \<Rightarrow> int \<Rightarrow> error option" where
  "validateDestinationCapacity destinations tot =
     (let undersized = map (\<lambda>d. de_ID d @ ''(capacity='' @ showInt (de_Capacity d) @ '')'')
            (filter (\<lambda>d. de_Capacity d < tot) destinations)
      in if undersized \<noteq> [] then
           Some (Errorf (''replication: destinations lack capacity for '' @ showInt tot @ '' bytes: ''
             @ joinWith '', '' undersized))
         else None)"

text \<open>The loop of \<open>Build\<close> over the chunks, with the indices it has seen.\<close>

fun build_loop ::
  "Chunk list \<Rightarrow> int list \<Rightarrow> ChunkPlan list \<Rightarrow> int \<Rightarrow> (ChunkPlan list \<times> int) result" where
  "build_loop [] seen chunks tot = Inr (chunks, tot)"
| "build_loop (chunk # rest) seen chunks tot =
     (if c_Index chunk < 0 \<or> c_Digest chunk = [] then
        Inl (Errorf (''replication: invalid chunk '' @ showInt (c_Index chunk)))
      else if c_Index chunk \<in> set seen then
        Inl (Errorf (''replication: duplicate chunk index '' @ showInt (c_Index chunk)))
      else let item = \<lparr>cp_Index = c_Index chunk, cp_CDigest = c_Digest chunk,
             cp_Bytes = int (length (c_Data chunk))\<rparr>
           in build_loop rest (c_Index chunk # seen) (chunks @ [item]) (wrap64 (tot + cp_Bytes item)))"

definition planner_Build :: "Snapshot \<Rightarrow> Destination list \<Rightarrow> int \<Rightarrow> Plan result" where
  "planner_Build snapshot destinations createdAtUnix =
     (case validatePlanableSnapshot snapshot of
        Some e \<Rightarrow> Inl e
      | None \<Rightarrow>
          if destinations = [] then Inl (Errorf ''replication: no eligible destinations'')
          else (case build_loop (s_Chunks snapshot) [] [] 0 of
            Inl e \<Rightarrow> Inl e
          | Inr (chunks, tot) \<Rightarrow>
              let chunks' = sort_by (\<lambda>a b. cp_Index a < cp_Index b) chunks;
                  destinations' = sort_by (\<lambda>a b. de_ID a < de_ID b) destinations
              in (case validateDestinationCapacity destinations' tot of
                    Some e \<Rightarrow> Inl e
                  | None \<Rightarrow> Inr \<lparr>pl_ID = planID (s_ID snapshot) (s_Generation snapshot),
                      pl_SnapshotID = s_ID snapshot, pl_Generation = s_Generation snapshot,
                      pl_Destinations = destinations', pl_Chunks = chunks', pl_TotalBytes = tot,
                      pl_CreatedAtUnix = createdAtUnix\<rparr>)))"

section \<open>Lemmas\<close>

definition registry_ok :: "rRegistry \<Rightarrow> bool" where
  "registry_ok r \<longleftrightarrow> (\<forall>i d. mget (rr_destinations r) i = Some d \<longrightarrow> de_ID d = i \<and> i \<noteq> [] \<and> 0 < de_Capacity d)"

lemma registry_ok_step: "registry_ok r \<Longrightarrow> registry_ok (registry_step op r)"
  by (cases op)
    (auto simp: registry_ok_def registry_Register_def registry_MarkHealth_def Let_def gomap_simps
      split: option.splits if_splits)

lemma registry_ok_run: "registry_ok r \<Longrightarrow> registry_ok (fold registry_step ops r)"
  by (induction ops arbitrary: r) (simp_all add: registry_ok_step)

lemma registry_ok_New: "registry_ok registry_NewRegistry"
  by (simp add: registry_ok_def registry_NewRegistry_def)

definition dest_key :: "Destination \<Rightarrow> string \<times> string" where
  "dest_key d = (de_Region d, de_ID d)"

lemma region_before_key: "region_before a b \<longleftrightarrow> dest_key a < dest_key b"
  by (auto simp: region_before_def dest_key_def less_prod_def)

lemma Eligible_sort:
  "0 < n \<Longrightarrow> registry_Eligible n r = sort_key dest_key
     (filter (\<lambda>d. de_Healthy d \<and> n \<le> de_Capacity d) (mvals (rr_destinations r)))"
  by (simp add: registry_Eligible_def sort_by_keyI [where k = dest_key] region_before_key)

lemma distinct_region: "registry_ok r \<Longrightarrow> distinct (map dest_key (mvals (rr_destinations r)))"
proof -
  assume "registry_ok r"
  then have "distinct (map de_ID (mvals (rr_destinations r)))"
    by (intro distinct_mvals) (auto simp: registry_ok_def)
  then have "distinct (map snd (map dest_key (mvals (rr_destinations r))))"
    by (simp add: comp_def dest_key_def)
  then show ?thesis by (simp only: distinct_map)
qed

definition chunkPlan :: "Chunk \<Rightarrow> ChunkPlan" where
  "chunkPlan c = \<lparr>cp_Index = c_Index c, cp_CDigest = c_Digest c, cp_Bytes = int (length (c_Data c))\<rparr>"

definition valid_chunk :: "Chunk \<Rightarrow> bool" where
  "valid_chunk c \<longleftrightarrow> 0 \<le> c_Index c \<and> c_Digest c \<noteq> []"

definition dataBytes :: "Chunk list \<Rightarrow> int" where
  "dataBytes cs = sum_list (map (\<lambda>c. int (length (c_Data c))) cs)"

lemma wrap64_add: "wrap64 (wrap64 x + y) = wrap64 (x + y)"
proof -
  have "((x + 2 ^ 63) mod 2 ^ 64 + y) mod 2 ^ 64 = (x + 2 ^ 63 + y) mod (2 ^ 64 :: int)"
    by (rule mod_add_left_eq)
  moreover have "(x + 2 ^ 63) mod 2 ^ 64 - 2 ^ 63 + y + 2 ^ 63 = (x + 2 ^ 63) mod 2 ^ 64 + y" by simp
  moreover have "x + 2 ^ 63 + y = x + y + (2 ^ 63 :: int)" by simp
  ultimately show ?thesis unfolding wrap64_def by (simp only:)
qed

definition plan_chunks_ok :: "Chunk list \<Rightarrow> int list \<Rightarrow> bool" where
  "plan_chunks_ok cs seen \<longleftrightarrow> (\<forall>c \<in> set cs. valid_chunk c) \<and> distinct (map c_Index cs)
     \<and> c_Index ` set cs \<inter> set seen = {}"

text \<open>The loop succeeds exactly on valid chunks with distinct indices.\<close>

lemma build_loop_ok:
  "plan_chunks_ok cs seen \<Longrightarrow> build_loop cs seen acc t =
     Inr (acc @ map chunkPlan cs, if cs = [] then t else wrap64 (t + dataBytes cs))"
proof (induction cs arbitrary: seen acc t)
  case (Cons c cs)
  then have ok: "plan_chunks_ok cs (c_Index c # seen)" and c: "valid_chunk c" "c_Index c \<notin> set seen"
    by (auto simp: plan_chunks_ok_def)
  have "build_loop (c # cs) seen acc t = build_loop cs (c_Index c # seen)
      (acc @ [chunkPlan c]) (wrap64 (t + int (length (c_Data c))))"
    using c by (auto simp: valid_chunk_def chunkPlan_def Let_def)
  also have "\<dots> = Inr (acc @ map chunkPlan (c # cs), wrap64 (t + dataBytes (c # cs)))"
    by (simp add: Cons.IH [OF ok] wrap64_add dataBytes_def add.assoc)
  finally show ?case by simp
qed simp

lemma build_loop_bad: "\<not> plan_chunks_ok cs seen \<Longrightarrow> \<exists>e. build_loop cs seen acc t = Inl e"
proof (induction cs arbitrary: seen acc t)
  case (Cons c cs)
  show ?case
  proof (cases "valid_chunk c \<and> c_Index c \<notin> set seen")
    case True
    with Cons.prems have "\<not> plan_chunks_ok cs (c_Index c # seen)"
      by (auto simp: plan_chunks_ok_def)
    with Cons.IH True show ?thesis by (simp add: Let_def valid_chunk_def)
  qed (auto simp: valid_chunk_def not_le)
qed (simp add: plan_chunks_ok_def)

text \<open>What a plan that was built says.\<close>

lemma Build_Inr:
  assumes "planner_Build sn ds t = Inr p"
  shows "pl_ID p = planID (s_ID sn) (s_Generation sn)" and "pl_SnapshotID p = s_ID sn"
    and "pl_TotalBytes p = wrap64 (dataBytes (s_Chunks sn))"
proof -
  obtain cs tot where l: "build_loop (s_Chunks sn) [] [] 0 = Inr (cs, tot)"
    and p: "pl_ID p = planID (s_ID sn) (s_Generation sn)" "pl_SnapshotID p = s_ID sn" "pl_TotalBytes p = tot"
    and ne: "s_Chunks sn \<noteq> []"
    using assms
    by (auto simp: planner_Build_def validatePlanableSnapshot_def Let_def
        split: option.splits sum.splits if_splits)
  have "plan_chunks_ok (s_Chunks sn) []" using build_loop_bad [of "s_Chunks sn" "[]" "[]" 0] l by auto
  from build_loop_ok [OF this, of "[]" 0] l ne have "tot = wrap64 (dataBytes (s_Chunks sn))" by simp
  with p show "pl_ID p = planID (s_ID sn) (s_Generation sn)" "pl_SnapshotID p = s_ID sn"
    "pl_TotalBytes p = wrap64 (dataBytes (s_Chunks sn))" by simp_all
qed

section \<open>Properties\<close>

text \<open>
  \<open>Eligible\<close> returns exactly the registered destinations that are healthy and have the
  required capacity, each once, ordered by region and then id, in whatever order the map is
  visited; for a requirement that is not positive it returns none.
\<close>

theorem eligible_spec:
  assumes "r = fold registry_step ops registry_NewRegistry"
  shows "(n \<le> 0 \<longrightarrow> registry_Eligible n r = [])
    \<and> (0 < n \<longrightarrow> set (registry_Eligible n r) =
          {d \<in> set (mvals (rr_destinations r)). de_Healthy d \<and> n \<le> de_Capacity d})
    \<and> sorted_wrt region_before (registry_Eligible n r)
    \<and> (\<forall>it. ranges it (rr_destinations r) \<and> 0 < n \<longrightarrow>
          sort_by region_before (filter (\<lambda>d. de_Healthy d \<and> de_Capacity d \<ge> n) (map snd it))
            = registry_Eligible n r)"
proof (cases "0 < n")
  case True
  have d: "distinct (map dest_key (mvals (rr_destinations r)))"
    unfolding assms by (intro distinct_region registry_ok_run registry_ok_New)
  have "distinct (map dest_key (registry_Eligible n r))"
    by (simp add: Eligible_sort [OF True] distinct_map_filter [OF d])
  then have "sorted_wrt (<) (map dest_key (registry_Eligible n r))"
    by (simp add: Eligible_sort [OF True] strict_sorted_iff)
  then have "sorted_wrt region_before (registry_Eligible n r)"
    by (simp add: sorted_wrt_map region_before_key [abs_def])
  moreover have "sort_by region_before (filter (\<lambda>d. de_Healthy d \<and> de_Capacity d \<ge> n) (map snd it))
      = registry_Eligible n r" if "ranges it (rr_destinations r)" for it
    unfolding Eligible_sort [OF True] sort_by_keyI [where k = dest_key, OF region_before_key]
    by (rule ranges_sort_filter [OF that d])
  moreover have "set (registry_Eligible n r) =
      {d \<in> set (mvals (rr_destinations r)). de_Healthy d \<and> n \<le> de_Capacity d}"
    by (simp add: Eligible_sort [OF True])
  moreover have "\<not> n \<le> 0" using True by simp
  ultimately show ?thesis by blast
qed (simp add: registry_Eligible_def)

definition sample_dest :: "string \<Rightarrow> string \<Rightarrow> int \<Rightarrow> Destination" where
  "sample_dest i reg cap = \<lparr>de_ID = i, de_Region = reg, de_Capacity = cap, de_Healthy = True, de_UpdatedAt = Time 1 UTC\<rparr>"

lemma eligible_witness:
  "map de_ID (registry_Eligible 10 (fold registry_step
     [DRegister zeroTime (sample_dest ''a'' ''west'' 50), DRegister zeroTime (sample_dest ''b'' ''east'' 50),
      DRegister zeroTime (sample_dest ''c'' ''east'' 5)] registry_NewRegistry)) = [''b'', ''a'']"
  using eligible_spec [OF refl, of 10 "[DRegister zeroTime (sample_dest ''a'' ''west'' 50),
      DRegister zeroTime (sample_dest ''b'' ''east'' 50), DRegister zeroTime (sample_dest ''c'' ''east'' 5)]"]
  by (simp add: registry_Eligible_def registry_Register_def sample_dest_def registry_NewRegistry_def IsZero_def
      entries_mput region_before_def)

text \<open>
  C31: \<open>Build\<close> returns a plan exactly for a named snapshot in a known state that is not expired,
  with at least one chunk, all of them valid and of distinct indices, and at least one
  destination, all with capacity for the total. The plan then holds every chunk once, by
  increasing index, the destinations by id, and the total number of bytes (as an \<open>int64\<close>); its
  id is determined by the snapshot's id and generation.
\<close>

theorem planner_build_spec:
  "(case planner_Build sn ds t of
      Inr p \<Rightarrow>
        s_ID sn \<noteq> [] \<and> s_Chunks sn \<noteq> [] \<and> snd (planableSnapshotState sn) = None \<and> ds \<noteq> []
      \<and> (\<forall>c \<in> set (s_Chunks sn). valid_chunk c) \<and> distinct (map c_Index (s_Chunks sn))
      \<and> (\<forall>d \<in> set ds. wrap64 (dataBytes (s_Chunks sn)) \<le> de_Capacity d)
      \<and> mset (pl_Chunks p) = mset (map chunkPlan (s_Chunks sn)) \<and> sorted (map cp_Index (pl_Chunks p))
      \<and> mset (pl_Destinations p) = mset ds \<and> sorted (map de_ID (pl_Destinations p))
      \<and> pl_TotalBytes p = wrap64 (dataBytes (s_Chunks sn)) \<and> pl_CreatedAtUnix p = t
      \<and> pl_SnapshotID p = s_ID sn \<and> pl_Generation p = s_Generation sn
      \<and> pl_ID p = planID (s_ID sn) (s_Generation sn)
    | Inl e \<Rightarrow>
        s_ID sn = [] \<or> s_Chunks sn = [] \<or> snd (planableSnapshotState sn) \<noteq> None \<or> ds = []
      \<or> (\<exists>c \<in> set (s_Chunks sn). \<not> valid_chunk c) \<or> \<not> distinct (map c_Index (s_Chunks sn))
      \<or> (\<exists>d \<in> set ds. de_Capacity d < wrap64 (dataBytes (s_Chunks sn))))"
proof -
  let ?ok = "(\<forall>c \<in> set (s_Chunks sn). valid_chunk c) \<and> distinct (map c_Index (s_Chunks sn))"
  have loop: "s_Chunks sn \<noteq> [] \<Longrightarrow> ?ok \<Longrightarrow>
      build_loop (s_Chunks sn) [] [] 0 = Inr (map chunkPlan (s_Chunks sn), wrap64 (dataBytes (s_Chunks sn)))"
    using build_loop_ok [of "s_Chunks sn" "[]" "[]" 0] by (simp add: plan_chunks_ok_def)
  have bad: "\<not> ?ok \<Longrightarrow> \<exists>e. build_loop (s_Chunks sn) [] [] 0 = Inl e"
    using build_loop_bad [of "s_Chunks sn" "[]" "[]" 0] by (auto simp: plan_chunks_ok_def)
  have srt: "sort_by (\<lambda>a b. cp_Index a < cp_Index b) xs = sort_key cp_Index xs"
    "sort_by (\<lambda>a b. de_ID a < de_ID b) ys = sort_key de_ID ys" for xs ys
    by (rule sort_by_key)+
  have cap: "validateDestinationCapacity (sort_key de_ID ds) n = None \<longleftrightarrow> (\<forall>d \<in> set ds. n \<le> de_Capacity d)" for n
    by (auto simp: validateDestinationCapacity_def Let_def filter_empty_conv not_less)
  show ?thesis
  proof (cases "validatePlanableSnapshot sn = None \<and> ds \<noteq> [] \<and> ?ok")
    case True
    then have v: "s_ID sn \<noteq> [] \<and> s_Chunks sn \<noteq> [] \<and> snd (planableSnapshotState sn) = None"
      by (auto simp: validatePlanableSnapshot_def split: if_splits)
    then show ?thesis
      using True loop cap [of "wrap64 (dataBytes (s_Chunks sn))"]
      by (cases "validateDestinationCapacity (sort_key de_ID ds) (wrap64 (dataBytes (s_Chunks sn)))")
        (auto simp: planner_Build_def Let_def srt not_le)
  next
    case False
    have "\<exists>e. planner_Build sn ds t = Inl e"
    proof (cases ?ok)
      case True
      with False show ?thesis by (auto simp: planner_Build_def split: option.split)
    next
      case nok: False
      then obtain e where "build_loop (s_Chunks sn) [] [] 0 = Inl e" using bad by blast
      then show ?thesis by (simp add: planner_Build_def split: option.split)
    qed
    moreover have "validatePlanableSnapshot sn \<noteq> None \<longleftrightarrow>
        s_ID sn = [] \<or> s_Chunks sn = [] \<or> snd (planableSnapshotState sn) \<noteq> None"
      by (auto simp: validatePlanableSnapshot_def)
    ultimately show ?thesis using False by auto
  qed
qed

definition sample_chunk :: "int \<Rightarrow> bytes \<Rightarrow> Chunk" where
  "sample_chunk i x = \<lparr>c_Index = i, c_Digest = ''d'', c_Data = x\<rparr>"

definition sample_published :: "Chunk list \<Rightarrow> Snapshot" where
  "sample_published cs = \<lparr>s_ID = ''s'', s_BaseID = [], s_Operation = ''op'', s_Generation = 1, s_Full = True,
     s_State = SnapshotPublished, s_Metadata = mempty, s_Chunks = cs, s_CreatedAt = zeroTime\<rparr>"

lemma planner_build_witness:
  "case planner_Build (sample_published [sample_chunk 1 [7], sample_chunk 0 [8, 9]]) [sample_dest ''a'' ''west'' 50] 0 of
     Inr p \<Rightarrow> map cp_Index (pl_Chunks p) = [0, 1] \<and> pl_TotalBytes p = 3 | Inl e \<Rightarrow> False"
  using planner_build_spec [of "sample_published [sample_chunk 1 [7], sample_chunk 0 [8, 9]]"
      "[sample_dest ''a'' ''west'' 50]" 0]
  by (simp add: planner_Build_def validatePlanableSnapshot_def planableSnapshotState_def sample_published_def
      sample_chunk_def sample_dest_def validateDestinationCapacity_def Let_def wrap64_def)

end
