(* ===== verification/Journal.thy ===== *)
theory Journal
  imports Model Contracts
begin

text \<open>
  Package \<open>journal\<close> (\<open>internal/journal/log.go\<close>): the append-only log. \<open>journal_Append\<close>
  and \<open>journal_AppendBatch\<close> number the entries they add and refuse when the log is closed;
  \<open>journal_LatestByOperation\<close> reduces a log to its newest entry per operation. The lemmas
  show the numbering and that the log only grows (through the contract \<open>append_log\<close>), and that
  the reduction is what its name says.
\<close>

record Entry =
  j_Sequence :: u64
  j_Generation :: u64
  j_Kind :: string
  j_SnapshotID :: string
  j_Operation :: string
  j_Detail :: string
  j_RecordedAt :: time

record Log =
  log_closed :: bool
  log_next :: u64
  log_entries :: "Entry list"

definition journal_New :: Log where
  "journal_New = \<lparr>log_closed = False, log_next = 1, log_entries = []\<rparr>"

definition journal_Append :: "Entry \<Rightarrow> Log \<Rightarrow> Log \<times> Entry result" where
  "journal_Append entry l =
     (if log_closed l then (l, Inl ErrJournalClosed)
      else let e = entry\<lparr>j_Sequence := log_next l, j_RecordedAt := tUTC (j_RecordedAt entry)\<rparr>
           in (l\<lparr>log_next := log_next l + 1, log_entries := log_entries l @ [e]\<rparr>, Inr e))"

text \<open>The loop of \<open>AppendBatch\<close>: the next free number and the entries numbered so far.\<close>

fun batch_number :: "u64 \<Rightarrow> Entry list \<Rightarrow> u64 \<times> Entry list" where
  "batch_number n [] = (n, [])"
| "batch_number n (entry # es) =
     (let e = entry\<lparr>j_Sequence := n, j_RecordedAt := tUTC (j_RecordedAt entry)\<rparr>;
          (n', committed) = batch_number (n + 1) es
      in (n', e # committed))"

definition journal_AppendBatch :: "Entry list \<Rightarrow> Log \<Rightarrow> Log \<times> Entry list result" where
  "journal_AppendBatch es l =
     (if log_closed l then (l, Inl ErrJournalClosed)
      else let (n, committed) = batch_number (log_next l) es
           in (l\<lparr>log_next := n, log_entries := log_entries l @ committed\<rparr>, Inr committed))"

definition journal_Entries :: "Log \<Rightarrow> Entry list" where
  "journal_Entries l = log_entries l"

definition journal_Close :: "Log \<Rightarrow> Log" where
  "journal_Close l = l\<lparr>log_closed := True\<rparr>"

definition journal_Open :: "Log \<Rightarrow> Log" where
  "journal_Open l = l\<lparr>log_closed := False\<rparr>"

definition journal_Closed :: "Log option \<Rightarrow> bool" where
  "journal_Closed l = (case l of None \<Rightarrow> True | Some l \<Rightarrow> log_closed l)"

text \<open>
  \<open>LatestByOperation\<close>: the loop keeps the newest entry seen per operation and the operations
  in the order they first occur.
\<close>

definition newer :: "Entry \<Rightarrow> Entry \<Rightarrow> bool" where
  "newer entry current \<longleftrightarrow>
     j_Generation entry > j_Generation current \<or>
     j_Generation entry = j_Generation current \<and> j_Sequence entry > j_Sequence current"

fun latest_loop ::
  "(string, Entry) gomap \<times> string list \<Rightarrow> Entry list \<Rightarrow> (string, Entry) gomap \<times> string list" where
  "latest_loop (latest, order) [] = (latest, order)"
| "latest_loop (latest, order) (entry # es) =
     (let op = j_Operation entry in
      case mget latest op of
        None \<Rightarrow> latest_loop (mput latest op entry, order @ [op]) es
      | Some current \<Rightarrow>
          latest_loop (if newer entry current then mput latest op entry else latest, order) es)"

definition journal_LatestByOperation :: "Entry list \<Rightarrow> Entry list" where
  "journal_LatestByOperation es =
     (let (latest, order) = latest_loop (mempty, []) es
      in map (\<lambda>op. the (mget latest op)) order)"

text \<open>The operations of the log, for runs of any of them.\<close>

datatype journal_op = JAppend Entry | JAppendBatch "Entry list" | JClose | JOpen

fun journal_step :: "journal_op \<Rightarrow> Log \<Rightarrow> Log" where
  "journal_step (JAppend e) l = fst (journal_Append e l)"
| "journal_step (JAppendBatch es) l = fst (journal_AppendBatch es l)"
| "journal_step JClose l = journal_Close l"
| "journal_step JOpen l = journal_Open l"

lemmas journal_defs [step_defs] =
  journal_New_def journal_Append_def journal_AppendBatch_def journal_Entries_def
  journal_Close_def journal_Open_def journal_Closed_def

section \<open>Appending\<close>

lemma batch_number_next: "fst (batch_number n es) = n + of_nat (length es)"
  by (induction n es rule: batch_number.induct) (simp_all add: Let_def split_beta ac_simps)

lemma batch_number_length [simp]: "length (snd (batch_number n es)) = length es"
  by (induction n es rule: batch_number.induct) (simp_all add: Let_def split_beta)

lemma batch_number_seq:
  "map j_Sequence (snd (batch_number n es)) = map (\<lambda>i. n + of_nat i) [0..<length es]"
proof (induction n es rule: batch_number.induct)
  case (2 n entry es)
  have "map (\<lambda>i. n + of_nat i) [0..<Suc (length es)] =
      n # map (\<lambda>i. (n + 1) + of_nat i) [0..<length es]"
    by (simp add: upt_conv_Cons map_Suc_upt [symmetric] ac_simps del: upt_Suc)
  with 2 show ?case by (simp add: Let_def split_beta del: upt_Suc)
qed simp

interpretation jlog: append_log log_entries j_Sequence log_next journal_step journal_New
proof
  fix op l
  show "\<exists>rs. log_entries (journal_step op l) = log_entries l @ rs
      \<and> map j_Sequence rs = map (\<lambda>i. log_next l + of_nat i) [0..<length rs]
      \<and> log_next (journal_step op l) = log_next l + of_nat (length rs)"
    by (cases op)
      (auto simp: journal_defs Let_def split_beta batch_number_next batch_number_seq)
qed (simp_all add: journal_New_def)

text \<open>A closed log changes for no append, and says so; an open one always takes the entry.\<close>

lemma journal_Append_closed:
  "log_closed l \<Longrightarrow> journal_Append e l = (l, Inl ErrJournalClosed)"
  by (simp add: journal_Append_def)

lemma journal_Append_open:
  "\<not> log_closed l \<Longrightarrow> log_entries (fst (journal_Append e l)) =
     log_entries l @ [e\<lparr>j_Sequence := log_next l, j_RecordedAt := tUTC (j_RecordedAt e)\<rparr>]"
  by (simp add: journal_Append_def Let_def)

lemma journal_Append_result:
  "journal_Append e l = (l', Inr e') \<Longrightarrow>
     \<not> log_closed l \<and> log_entries l' = log_entries l @ [e'] \<and> log_closed l' = log_closed l"
  by (auto simp: journal_Append_def Let_def split: if_splits)

section \<open>The newest entry per operation\<close>

text \<open>
  The order in which entries are compared: generation first, then sequence number.
\<close>

definition age :: "Entry \<Rightarrow> u64 \<times> u64" where
  "age e = (j_Generation e, j_Sequence e)"

lemma newer_age: "newer a b \<longleftrightarrow> age b < age a"
  by (auto simp: newer_def age_def less_prod_def)

text \<open>
  The reference: the entries of one operation, folded to a newest one (the first of them among
  equals), for each operation in the order of first occurrence.
\<close>

fun newest :: "Entry \<Rightarrow> Entry list \<Rightarrow> Entry" where
  "newest e [] = e"
| "newest e (x # xs) = newest (if age e < age x then x else e) xs"

definition of_operation :: "string \<Rightarrow> Entry list \<Rightarrow> Entry list" where
  "of_operation op es = filter (\<lambda>e. j_Operation e = op) es"

fun first_occ :: "string list \<Rightarrow> string list" where
  "first_occ [] = []"
| "first_occ (x # xs) = x # filter (\<lambda>y. y \<noteq> x) (first_occ xs)"

definition latest_ref :: "Entry list \<Rightarrow> Entry list" where
  "latest_ref es = map (\<lambda>op. case of_operation op es of e # r \<Rightarrow> newest e r)
     (first_occ (map j_Operation es))"

lemma newest_mem: "newest e xs \<in> insert e (set xs)"
  by (induction xs arbitrary: e) auto

lemma newest_max: "x \<in> insert e (set xs) \<Longrightarrow> age x \<le> age (newest e xs)"
proof (induction xs arbitrary: e x)
  case (Cons y ys)
  let ?e = "if age e < age y then y else e"
  have "age e \<le> age ?e" and "age y \<le> age ?e" by auto
  moreover have "age ?e \<le> age (newest ?e ys)" by (rule Cons.IH) simp
  moreover have "z \<in> set ys \<Longrightarrow> age z \<le> age (newest ?e ys)" for z by (rule Cons.IH) simp
  ultimately show ?case using Cons.prems by (auto simp del: if_split intro: order_trans)
qed simp

text \<open>What the loop computes, from any intermediate state.\<close>

definition lookup_after :: "(string, Entry) gomap \<Rightarrow> Entry list \<Rightarrow> string \<Rightarrow> Entry option" where
  "lookup_after latest es op =
     (case mget latest op of
        Some e \<Rightarrow> Some (newest e (of_operation op es))
      | None \<Rightarrow> (case of_operation op es of [] \<Rightarrow> None | e # r \<Rightarrow> Some (newest e r)))"

lemma latest_loop_lookup:
  "mget (fst (latest_loop (latest, order) es)) op = lookup_after latest es op"
proof (induction es arbitrary: latest order)
  case Nil
  then show ?case by (simp add: lookup_after_def of_operation_def split: option.split)
next
  case (Cons e es)
  show ?case
  proof (cases "mget latest (j_Operation e)")
    case None
    then have "mget (fst (latest_loop (latest, order) (e # es))) op =
        lookup_after (mput latest (j_Operation e) e) es op"
      by (simp add: Cons.IH Let_def)
    with None show ?thesis
      by (auto simp: lookup_after_def of_operation_def gomap_simps split: option.split)
  next
    case (Some c)
    then have "mget (fst (latest_loop (latest, order) (e # es))) op =
        lookup_after (if newer e c then mput latest (j_Operation e) e else latest) es op"
      by (simp add: Cons.IH Let_def)
    with Some show ?thesis
      by (auto simp: lookup_after_def of_operation_def gomap_simps newer_age split: option.split)
  qed
qed

lemma latest_loop_order:
  assumes "\<And>op. mget latest op \<noteq> None \<longleftrightarrow> op \<in> set order"
  shows "snd (latest_loop (latest, order) es) =
     order @ filter (\<lambda>op. op \<notin> set order) (first_occ (map j_Operation es))"
  using assms
proof (induction es arbitrary: latest order)
  case (Cons e es)
  let ?op = "j_Operation e"
  show ?case
  proof (cases "mget latest ?op")
    case None
    then have new: "?op \<notin> set order" using Cons.prems by blast
    have "snd (latest_loop (latest, order) (e # es)) =
        snd (latest_loop (mput latest ?op e, order @ [?op]) es)"
      using None by (simp add: Let_def)
    also have "\<dots> = (order @ [?op]) @
        filter (\<lambda>op. op \<notin> set (order @ [?op])) (first_occ (map j_Operation es))"
      by (rule Cons.IH) (use Cons.prems in \<open>auto simp: gomap_simps\<close>)
    finally show ?thesis
      using new by (simp add: conj_commute cong: filter_cong)
  next
    case (Some c)
    then have old: "?op \<in> set order" using Cons.prems by blast
    have "snd (latest_loop (latest, order) (e # es)) =
        snd (latest_loop (if newer e c then mput latest ?op e else latest, order) es)"
      using Some by (simp add: Let_def)
    also have "\<dots> = order @ filter (\<lambda>op. op \<notin> set order) (first_occ (map j_Operation es))"
      by (rule Cons.IH) (use Cons.prems old in \<open>auto simp: gomap_simps\<close>)
    finally show ?thesis
      using old by (simp, intro filter_cong refl) auto
  qed
qed simp

lemma set_first_occ [simp]: "set (first_occ xs) = set xs"
  by (induction xs) auto

lemma distinct_first_occ: "distinct (first_occ xs)"
  by (induction xs) simp_all

lemma LatestByOperation_ref: "journal_LatestByOperation es = latest_ref es"
proof -
  have order: "snd (latest_loop (mempty, []) es) = first_occ (map j_Operation es)"
    by (subst latest_loop_order) simp_all
  have "the (mget (fst (latest_loop (mempty, []) es)) op) =
      (case of_operation op es of e # r \<Rightarrow> newest e r)" if "op \<in> set (map j_Operation es)" for op
  proof -
    from that have "of_operation op es \<noteq> []"
      by (auto simp: of_operation_def filter_empty_conv)
    then show ?thesis
      by (simp add: latest_loop_lookup lookup_after_def split: list.split)
  qed
  then show ?thesis
    unfolding journal_LatestByOperation_def latest_ref_def
    by (simp add: split_beta order)
qed

section \<open>Properties\<close>

text \<open>
  C33: whatever sequence of appends, batches, closings and openings a log goes through from
  \<open>New\<close>, its entries are numbered 1, 2, 3, ... without a gap, and what it held at any moment
  stays, unchanged and in place, at the front of what it holds later.
\<close>

theorem journal_numbered_append_only:
  "map j_Sequence (journal_Entries (fold journal_step ops journal_New)) =
     map (\<lambda>i. of_nat (Suc i)) [0..<length (journal_Entries (fold journal_step ops journal_New))]
   \<and> (\<exists>rs. journal_Entries (fold journal_step later (fold journal_step ops journal_New)) =
       journal_Entries (fold journal_step ops journal_New) @ rs)"
proof -
  have "jlog.numbered (fold journal_step ops journal_New)"
    by (rule jlog.counted.inv_reached)
  then show ?thesis
    unfolding jlog.numbered_def journal_Entries_def using jlog.prefix_kept by blast
qed

lemma of_operation_newest:
  assumes "of_operation op es = e # r"
  shows "newest e r \<in> set es" and "j_Operation (newest e r) = op"
    and "\<lbrakk> x \<in> set es; j_Operation x = op \<rbrakk> \<Longrightarrow> age x \<le> age (newest e r)"
proof -
  have sub: "insert e (set r) = {x \<in> set es. j_Operation x = op}"
    using assms by (metis list.simps(15) of_operation_def set_filter)
  show "newest e r \<in> set es" and "j_Operation (newest e r) = op"
    using newest_mem [of e r] sub by auto
  show "\<lbrakk> x \<in> set es; j_Operation x = op \<rbrakk> \<Longrightarrow> age x \<le> age (newest e r)"
    using newest_max [of x e r] sub by auto
qed

lemma of_operation_nonempty:
  "op \<in> j_Operation ` set es \<Longrightarrow> \<exists>e r. of_operation op es = e # r"
  by (cases "of_operation op es") (auto simp: of_operation_def filter_empty_conv)

text \<open>
  C34: \<open>LatestByOperation\<close> returns exactly one entry per operation of the log, in the order the
  operations first occur, and that entry is one of the log's own with no entry of the same
  operation of a higher generation, or of the same generation and a higher sequence number.
\<close>

theorem latest_by_operation_spec:
  "map j_Operation (journal_LatestByOperation es) = first_occ (map j_Operation es)
   \<and> (\<forall>e \<in> set (journal_LatestByOperation es). e \<in> set es
        \<and> (\<forall>x \<in> set es. j_Operation x = j_Operation e \<longrightarrow> \<not> newer x e))"
proof
  let ?f = "\<lambda>op. case of_operation op es of e # r \<Rightarrow> newest e r"
  have ops: "j_Operation (?f op) = op \<and> ?f op \<in> set es
      \<and> (\<forall>x \<in> set es. j_Operation x = op \<longrightarrow> age x \<le> age (?f op))"
    if "op \<in> j_Operation ` set es" for op
  proof -
    have "\<exists>e r. of_operation op es = e # r" using that by (rule of_operation_nonempty)
    then obtain e r where "of_operation op es = e # r" by blast
    then show ?thesis using of_operation_newest [of op es e r] by simp
  qed
  show "map j_Operation (journal_LatestByOperation es) = first_occ (map j_Operation es)"
    unfolding LatestByOperation_ref latest_ref_def map_map by (rule map_idI) (simp add: ops)
  show "\<forall>e \<in> set (journal_LatestByOperation es). e \<in> set es
      \<and> (\<forall>x \<in> set es. j_Operation x = j_Operation e \<longrightarrow> \<not> newer x e)"
    unfolding LatestByOperation_ref latest_ref_def newer_age
    using ops by (auto simp: not_less)
qed

definition entry_at :: "u64 \<Rightarrow> u64 \<Rightarrow> string \<Rightarrow> string \<Rightarrow> Entry" where
  "entry_at n g kind op = \<lparr>j_Sequence = n, j_Generation = g, j_Kind = kind, j_SnapshotID = ''snap'',
     j_Operation = op, j_Detail = [], j_RecordedAt = zeroTime\<rparr>"

lemma latest_by_operation_witness:
  "journal_LatestByOperation
     [entry_at 1 1 ''publish'' ''a'', entry_at 2 2 ''publish'' ''b'', entry_at 3 1 ''verify'' ''a'']
     = [entry_at 3 1 ''verify'' ''a'', entry_at 2 2 ''publish'' ''b'']
   \<and> entry_at 3 1 ''verify'' ''a'' \<in> set (journal_LatestByOperation
       [entry_at 1 1 ''publish'' ''a'', entry_at 2 2 ''publish'' ''b'', entry_at 3 1 ''verify'' ''a''])
   \<and> \<not> newer (entry_at 1 1 ''publish'' ''a'') (entry_at 3 1 ''verify'' ''a'')"
proof -
  let ?es = "[entry_at 1 1 ''publish'' ''a'', entry_at 2 2 ''publish'' ''b'',
    entry_at 3 1 ''verify'' ''a'']"
  have l: "journal_LatestByOperation ?es = [entry_at 3 1 ''verify'' ''a'', entry_at 2 2 ''publish'' ''b'']"
    by (simp add: journal_LatestByOperation_def Let_def entry_at_def newer_def)
  then show ?thesis
    using latest_by_operation_spec [of ?es] by (simp add: entry_at_def)
qed

end
