(* ===== verification/AuditLedger.thy ===== *)
theory AuditLedger
  imports Model Contracts Sha256
begin

text \<open>
  Package \<open>audit\<close> (\<open>internal/audit/ledger.go\<close>): a hash-chained ledger of events.
  \<open>audit_Record\<close> appends an event that carries the hash of the one before it,
  \<open>audit_Verify\<close> recomputes the chain. The lemmas show that every ledger built by
  \<open>Record\<close> verifies, that two verifying ledgers of the same length with the same last hash
  record the same event texts unless SHA-256 collides on two of them, and where the chain does
  not protect: the text that is hashed does not delimit its fields.
\<close>

record Event =
  a_Sequence :: u64
  a_Kind :: string
  a_ObjectID :: string
  a_Detail :: string
  a_Recorded :: time
  a_Previous :: string
  a_Hash :: string

record Ledger =
  led_next :: u64
  led_events :: "Event list"

definition audit_New :: Ledger where
  "audit_New = \<lparr>led_next = 1, led_events = []\<rparr>"

text \<open>The text that \<open>hash\<close> formats, \<open>%d|%s|%s|%s|%s|%s\<close>.\<close>

definition hashText :: "Event \<Rightarrow> string" where
  "hashText e = showU64 (a_Sequence e) @ ''|'' @ a_Kind e @ ''|'' @ a_ObjectID e @ ''|'' @
     a_Detail e @ ''|'' @ rfc3339Nano (a_Recorded e) @ ''|'' @ a_Previous e"

definition audit_hash :: "Event \<Rightarrow> string" where
  "audit_hash e = sumHex (bytesOf (hashText e))"

definition audit_Record :: "string \<Rightarrow> string \<Rightarrow> string \<Rightarrow> time \<Rightarrow> Ledger \<Rightarrow> Ledger \<times> Event" where
  "audit_Record kind objectID detail now l =
     (let previous = (if led_events l = [] then [] else a_Hash (last (led_events l)));
          event = \<lparr>a_Sequence = led_next l, a_Kind = kind, a_ObjectID = objectID, a_Detail = detail,
            a_Recorded = tUTC now, a_Previous = previous, a_Hash = []\<rparr>;
          event' = event\<lparr>a_Hash := audit_hash event\<rparr>
      in (l\<lparr>led_next := led_next l + 1, led_events := led_events l @ [event']\<rparr>, event'))"

definition audit_Events :: "Ledger \<Rightarrow> Event list" where
  "audit_Events l = led_events l"

definition audit_EventsFor :: "string \<Rightarrow> Ledger \<Rightarrow> Event list" where
  "audit_EventsFor objectID l = filter (\<lambda>e. a_ObjectID e = objectID) (led_events l)"

text \<open>\<open>Latest\<close> scans from the end.\<close>

definition audit_Latest :: "string \<Rightarrow> Ledger \<Rightarrow> Event option" where
  "audit_Latest objectID l = List.find (\<lambda>e. a_ObjectID e = objectID) (rev (led_events l))"

text \<open>The loop of \<open>Verify\<close>, at position \<open>index\<close> with the hash of the event before.\<close>

fun verify_loop :: "nat \<Rightarrow> string \<Rightarrow> Event list \<Rightarrow> error option" where
  "verify_loop index previous [] = None"
| "verify_loop index previous (event # es) =
     (if a_Sequence event \<noteq> of_nat (index + 1) \<or> a_Previous event \<noteq> previous
         \<or> a_Hash event \<noteq> audit_hash event
      then Some ErrBrokenChain
      else verify_loop (index + 1) (a_Hash event) es)"

definition audit_Verify :: "Ledger \<Rightarrow> error option" where
  "audit_Verify l = verify_loop 0 [] (led_events l)"

fun through_loop :: "u64 \<Rightarrow> Event list \<Rightarrow> error option" where
  "through_loop sequence [] = None"
| "through_loop sequence (event # es) =
     (if a_Sequence event > sequence then None
      else if a_Hash event = [] then Some ErrBrokenChain
      else through_loop sequence es)"

definition audit_VerifyThrough :: "u64 \<Rightarrow> Ledger \<Rightarrow> error option" where
  "audit_VerifyThrough sequence l = through_loop sequence (audit_Events l)"

text \<open>A run of \<open>Record\<close> calls: kind, object, detail and time of each.\<close>

type_synonym audit_op = "string \<times> string \<times> string \<times> time"

fun audit_step :: "audit_op \<Rightarrow> Ledger \<Rightarrow> Ledger" where
  "audit_step (kind, objectID, detail, now) l = fst (audit_Record kind objectID detail now l)"

lemmas audit_defs [step_defs] =
  audit_New_def audit_Record_def audit_Events_def audit_EventsFor_def audit_Latest_def
  audit_Verify_def audit_VerifyThrough_def

section \<open>The chain\<close>

lemma audit_hash_cong [simp]: "audit_hash (e\<lparr>a_Hash := h\<rparr>) = audit_hash e"
  by (simp add: audit_hash_def hashText_def)

definition lastHash :: "string \<Rightarrow> Event list \<Rightarrow> string" where
  "lastHash previous es = (if es = [] then previous else a_Hash (last es))"

lemma verify_loop_append:
  "verify_loop i p (xs @ ys) = None \<longleftrightarrow>
     verify_loop i p xs = None \<and> verify_loop (i + length xs) (lastHash p xs) ys = None"
  by (induction xs arbitrary: i p) (auto simp: lastHash_def)

definition audit_inv :: "Ledger \<Rightarrow> bool" where
  "audit_inv l \<longleftrightarrow> audit_Verify l = None \<and> led_next l = of_nat (length (led_events l) + 1)"

lemma audit_inv_Record:
  assumes "audit_inv l"
  shows "audit_inv (fst (audit_Record kind obj detail now l))"
  using assms
  by (simp add: audit_inv_def audit_Verify_def audit_Record_def Let_def verify_loop_append lastHash_def
      audit_hash_def hashText_def algebra_simps)

interpretation chain: invariant_machine audit_New audit_step audit_inv
proof
  show "audit_inv audit_New" by (simp add: audit_inv_def audit_defs)
next
  fix s op
  assume "audit_inv s"
  then show "audit_inv (audit_step op s)" by (cases op) (simp add: audit_inv_Record)
qed

interpretation alog: append_log led_events a_Sequence led_next audit_step audit_New
proof
  fix op l
  show "\<exists>rs. led_events (audit_step op l) = led_events l @ rs
      \<and> map a_Sequence rs = map (\<lambda>i. led_next l + of_nat i) [0..<length rs]
      \<and> led_next (audit_step op l) = led_next l + of_nat (length rs)"
    by (cases op) (simp add: audit_defs Let_def)
qed (simp_all add: audit_New_def)

section \<open>Tampering\<close>

text \<open>
  In a verifying chain every hash is that of the event's text, and the text ends with the hash of
  the event before; so the last hash commits to the whole chain.
\<close>

lemma verify_loop_snoc:
  "verify_loop i p (es @ [e]) = None \<longleftrightarrow>
     verify_loop i p es = None \<and> a_Sequence e = of_nat (i + length es + 1)
     \<and> a_Previous e = lastHash p es \<and> a_Hash e = audit_hash e"
  by (auto simp: verify_loop_append)

lemma equal_hash:
  "audit_hash e = audit_hash f \<Longrightarrow>
     hashText e = hashText f \<or>
     bytesOf (hashText e) \<noteq> bytesOf (hashText f)
       \<and> sha256 (bytesOf (hashText e)) = sha256 (bytesOf (hashText f))"
  by (auto simp: audit_hash_def sumHex_eq_iff)

text \<open>
  The text ends with the previous hash, after the last bar. Hashes are 64 hex digits (or empty,
  for the first event), so equal texts have equal previous hashes when both have the same length.
\<close>

lemma hashText_previous:
  assumes "hashText e = hashText f" and "length (a_Previous e) = length (a_Previous f)"
  shows "a_Previous e = a_Previous f"
proof -
  have split: "\<exists>p. hashText e = p @ a_Previous e" for e by (auto simp: hashText_def)
  obtain p q where "hashText e = p @ a_Previous e" and "hashText f = q @ a_Previous f"
    using split by blast
  then show ?thesis using assms by (metis append_eq_append_conv)
qed

lemma length_lastHash:
  "verify_loop i [] es = None \<Longrightarrow> length (lastHash [] es) = (if es = [] then 0 else 64)"
  by (cases es rule: rev_cases) (auto simp: lastHash_def verify_loop_snoc audit_hash_def)

lemma chain_commits:
  assumes "verify_loop 0 [] xs = None" and "verify_loop 0 [] ys = None"
    and "length xs = length ys" and "lastHash [] xs = lastHash [] ys"
    and no_collision: "\<And>a b. \<lbrakk> a \<in> set xs; b \<in> set ys; audit_hash a = audit_hash b \<rbrakk>
      \<Longrightarrow> hashText a = hashText b"
  shows "map hashText xs = map hashText ys"
  using assms
proof (induction xs arbitrary: ys rule: rev_induct)
  case (snoc x xs)
  then obtain zs y where ys: "ys = zs @ [y]" by (cases ys rule: rev_cases) auto
  have x: "verify_loop 0 [] xs = None" "a_Previous x = lastHash [] xs" "a_Hash x = audit_hash x"
    and y: "verify_loop 0 [] zs = None" "a_Previous y = lastHash [] zs" "a_Hash y = audit_hash y"
    using snoc.prems by (auto simp: ys verify_loop_snoc)
  have "audit_hash x = audit_hash y"
    using snoc.prems x y by (simp add: ys lastHash_def)
  then have same: "hashText x = hashText y"
    using snoc.prems(5) [of x y] by (simp add: ys)
  have len: "length xs = length zs" using snoc.prems by (simp add: ys)
  have "length (a_Previous x) = length (a_Previous y)"
    unfolding x(2) y(2) length_lastHash [OF x(1)] length_lastHash [OF y(1)] using len by auto
  then have "lastHash [] xs = lastHash [] zs"
    using hashText_previous [OF same] x y by simp
  then have "map hashText xs = map hashText zs"
    using x y len snoc.prems(5) by (intro snoc.IH) (auto simp: ys)
  then show ?case using same by (simp add: ys)
qed simp

text \<open>\<open>Latest\<close> is the last of \<open>EventsFor\<close>.\<close>

lemma find_rev: "List.find P (rev xs) = (if filter P xs = [] then None else Some (last (filter P xs)))"
  by (induction xs rule: rev_induct) (auto simp: filter_empty_conv)

lemma audit_Latest_EventsFor:
  "audit_Latest obj l =
     (if audit_EventsFor obj l = [] then None else Some (last (audit_EventsFor obj l)))"
  by (simp add: audit_Latest_def audit_EventsFor_def find_rev)

lemma through_loop_blind:
  assumes "\<And>e. a_Sequence (f e) = a_Sequence e" and "\<And>e. a_Hash (f e) = a_Hash e"
  shows "through_loop n (map f es) = through_loop n es"
  by (induction es) (simp_all add: assms)

section \<open>Properties\<close>

text \<open>
  C8: a ledger built by any sequence of \<open>Record\<close> calls passes \<open>Verify\<close>, holds one event
  per call in the order of the calls, and keeps every event it ever held in its place.
\<close>

theorem audit_recorded_ledger_verifies:
  "audit_Verify (fold audit_step ops audit_New) = None
   \<and> map (\<lambda>e. (a_Kind e, a_ObjectID e, a_Detail e)) (audit_Events (fold audit_step ops audit_New))
       = map (\<lambda>(k, obj, d, _). (k, obj, d)) ops
   \<and> (\<exists>rs. audit_Events (fold audit_step later (fold audit_step ops audit_New)) =
        audit_Events (fold audit_step ops audit_New) @ rs)"
proof -
  have "map (\<lambda>e. (a_Kind e, a_ObjectID e, a_Detail e)) (led_events (fold audit_step ops l)) =
      map (\<lambda>e. (a_Kind e, a_ObjectID e, a_Detail e)) (led_events l) @
      map (\<lambda>(k, obj, d, _). (k, obj, d)) ops" for l
    by (induction ops arbitrary: l) (auto simp: audit_Record_def Let_def)
  from this [of audit_New] show ?thesis
    using chain.inv_reached [of ops] alog.prefix_kept [of later "fold audit_step ops audit_New"]
    by (simp add: audit_inv_def audit_Events_def audit_New_def)
qed

text \<open>
  C7: tamper evidence. Two ledgers that both pass \<open>Verify\<close>, hold the same number of events and
  end with the same hash, record the same event texts throughout, unless two of their events
  have different texts with the same SHA-256 digest: the last hash commits to the whole ledger.
\<close>

theorem audit_tamper_evident:
  assumes "audit_Verify l = None" and "audit_Verify m = None"
    and "length (audit_Events l) = length (audit_Events m)"
    and "lastHash [] (audit_Events l) = lastHash [] (audit_Events m)"
  shows "map hashText (audit_Events l) = map hashText (audit_Events m) \<or>
    (\<exists>a \<in> set (audit_Events l). \<exists>b \<in> set (audit_Events m). hashText a \<noteq> hashText b \<and>
      sha256 (bytesOf (hashText a)) = sha256 (bytesOf (hashText b)))"
proof (rule ccontr)
  assume neg: "\<not> ?thesis"
  have "map hashText (led_events l) = map hashText (led_events m)"
  proof (rule chain_commits)
    fix a b
    assume "a \<in> set (led_events l)" "b \<in> set (led_events m)" "audit_hash a = audit_hash b"
    then show "hashText a = hashText b"
      using neg equal_hash [of a b] by (auto simp: audit_Events_def)
  qed (use assms in \<open>simp_all add: audit_Verify_def audit_Events_def\<close>)
  with neg show False by (simp add: audit_Events_def)
qed

lemma audit_tamper_evident_witness:
  "\<exists>l. audit_Verify l = None \<and> length (audit_Events l) = 2
     \<and> map hashText (audit_Events l) = map hashText (audit_Events l)"
proof -
  let ?l = "fold audit_step [(''capture'', ''snap'', ''x'', zeroTime), (''verify'', ''snap'', ''y'', zeroTime)]
    audit_New"
  have v: "audit_Verify ?l = None"
    using chain.inv_reached unfolding audit_inv_def by blast
  moreover have "length (audit_Events ?l) = 2"
    by (simp add: audit_defs Let_def)
  ultimately show ?thesis
    using audit_tamper_evident [OF v v refl refl] by blast
qed

text \<open>
  The hashed text does not delimit its fields, so \<open>Verify\<close> cannot tell apart two events that
  move a bar between the kind and the object. After one \<open>Record\<close>, replacing the kind
  \<open>k\<close> and object \<open>a|b\<close> by the kind \<open>k|a\<close> and the object \<open>b\<close> leaves a
  ledger that verifies and reports the event under another object.
\<close>

theorem audit_fields_not_delimited:
  "let l = fst (audit_Record k (a @ ''|'' @ b) d now audit_New);
       forged = l\<lparr>led_events := map (\<lambda>e. e\<lparr>a_Kind := k @ ''|'' @ a, a_ObjectID := b\<rparr>) (led_events l)\<rparr>
   in audit_Verify l = None \<and> audit_Verify forged = None
      \<and> audit_EventsFor b l = [] \<and> length (audit_EventsFor b forged) = 1"
proof -
  have "a @ ''|'' @ b \<noteq> b" by (metis append_self_conv2 append_assoc append_is_Nil_conv list.distinct(1))
  then show ?thesis
    by (simp add: audit_defs Let_def audit_hash_def hashText_def)
qed

text \<open>
  \<open>VerifyThrough\<close> looks only at the sequence numbers and at whether a hash is empty: any
  rewriting of kinds, objects, details, times or previous hashes leaves its answer unchanged.
\<close>

theorem audit_verify_through_blind:
  assumes "\<And>e. a_Sequence (f e) = a_Sequence e" and "\<And>e. a_Hash (f e) = a_Hash e"
  shows "audit_VerifyThrough n (l\<lparr>led_events := map f (led_events l)\<rparr>) = audit_VerifyThrough n l"
  using assms by (simp add: audit_VerifyThrough_def audit_Events_def through_loop_blind)

lemma audit_verify_through_blind_witness:
  "let l = fst (audit_Record ''capture'' ''snap'' ''x'' zeroTime audit_New);
       broken = l\<lparr>led_events := map (\<lambda>e. e\<lparr>a_Previous := ''other''\<rparr>) (led_events l)\<rparr>
   in audit_Verify broken = Some ErrBrokenChain \<and> audit_VerifyThrough 1 broken = None"
proof -
  let ?l = "fst (audit_Record ''capture'' ''snap'' ''x'' zeroTime audit_New)"
  have "audit_VerifyThrough 1 (?l\<lparr>led_events := map (\<lambda>e. e\<lparr>a_Previous := ''other''\<rparr>) (led_events ?l)\<rparr>)
      = audit_VerifyThrough 1 ?l"
    by (rule audit_verify_through_blind) simp_all
  also have "\<dots> = None"
    by (simp add: audit_defs Let_def audit_hash_def)
  finally show ?thesis
    by (simp add: Let_def) (simp add: audit_defs Let_def)
qed

end
