(* ===== verification/ReplDispatcher.thy ===== *)
theory ReplDispatcher
  imports Complex_Main ReplBudget ReplPlanner TimeWindow Journal AuditLedger
begin

text \<open>
  \<open>internal/replication/window.go\<close> and \<open>dispatcher.go\<close>: the outcomes of replications, and
  the dispatcher, which reserves the budget of a plan, journals and audits it, and completes it.

  The dispatcher holds pointers to the registry, the journal and the audit ledger, the last two of
  which may be \<open>nil\<close> (\<open>None\<close> here). Its clock is read at most once at each place of an
  operation; \<open>ck i\<close> is the reading at the \<open>i\<close>-th of them.
\<close>

section \<open>The window\<close>

record rOutcome =
  ro_PlanID :: string
  ro_Destination :: string
  ro_Succeeded :: bool
  ro_Bytes :: int
  ro_At :: time

record rWindow =
  rw_length :: duration
  rw_items :: "rOutcome list"

definition replication_NewWindow :: "duration \<Rightarrow> rWindow" where
  "replication_NewWindow len = \<lparr>rw_length = (if len \<le> 0 then 10 * Minute else len), rw_items = []\<rparr>"

definition replication_pruneLocked :: "time \<Rightarrow> rWindow \<Rightarrow> rWindow" where
  "replication_pruneLocked now w =
     (let cutoff = tAdd now (- rw_length w)
      in w\<lparr>rw_items := drop (first_kept ro_At cutoff (rw_items w)) (rw_items w)\<rparr>)"

text \<open>The two readings of the clock: for an outcome without a time, and for pruning.\<close>

definition addUniqueLocked :: "time \<times> time \<Rightarrow> rOutcome \<Rightarrow> rWindow \<Rightarrow> rWindow \<times> bool" where
  "addUniqueLocked cks outcome w =
     (if \<exists>existing \<in> set (rw_items w). ro_PlanID existing = ro_PlanID outcome
           \<and> ro_Destination existing = ro_Destination outcome
      then (w, False)
      else let o1 = (if IsZero (ro_At outcome) then outcome\<lparr>ro_At := tUTC (fst cks)\<rparr> else outcome)
           in (replication_pruneLocked (snd cks) (w\<lparr>rw_items := rw_items w @ [o1]\<rparr>), True))"

definition replication_WindowAdd :: "time \<times> time \<Rightarrow> rOutcome \<Rightarrow> rWindow \<Rightarrow> rWindow" where
  "replication_WindowAdd cks outcome w = fst (addUniqueLocked cks outcome w)"

definition replication_WindowSnapshot :: "time \<Rightarrow> rWindow \<Rightarrow> rWindow \<times> rOutcome list" where
  "replication_WindowSnapshot now w =
     (let w' = replication_pruneLocked now w
      in (w', sort_by (\<lambda>a b. ro_At a < ro_At b) (rw_items w')))"

definition replication_WindowFailureRate :: "time \<Rightarrow> rWindow \<Rightarrow> rWindow \<times> rat" where
  "replication_WindowFailureRate now w =
     (let (w', items) = replication_WindowSnapshot now w
      in (w', if items = [] then 0
              else of_nat (length (filter (\<lambda>i. \<not> ro_Succeeded i) items)) / of_nat (length items)))"

interpretation rwindow: time_window rw_items rw_length ro_At replication_pruneLocked
  by unfold_locales (simp_all add: replication_pruneLocked_def Let_def)

section \<open>The dispatcher\<close>

record Dispatcher =
  di_registry :: rRegistry
  di_budget :: Budget
  di_window :: rWindow
  di_journal :: "Log option"
  di_audit :: "Ledger option"
  di_completed :: "(string, bool) gomap"

definition dispatcher_New :: "rRegistry \<Rightarrow> Budget \<Rightarrow> Log option \<Rightarrow> Ledger option \<Rightarrow> Dispatcher" where
  "dispatcher_New registry budget journalLog ledger =
     \<lparr>di_registry = registry, di_budget = budget, di_window = replication_NewWindow (10 * Minute),
      di_journal = journalLog, di_audit = ledger, di_completed = mempty\<rparr>"

text \<open>\<open>if d.audit != nil { d.audit.Record(...) }\<close>\<close>

definition auditIf :: "string \<Rightarrow> string \<Rightarrow> string \<Rightarrow> time \<Rightarrow> Dispatcher \<Rightarrow> Dispatcher" where
  "auditIf kind obj detail now d =
     d\<lparr>di_audit := map_option (\<lambda>a. fst (audit_Record kind obj detail now a)) (di_audit d)\<rparr>"

fun totalChunkBytes_loop :: "ChunkPlan list \<Rightarrow> int \<Rightarrow> int result" where
  "totalChunkBytes_loop [] tot = Inr tot"
| "totalChunkBytes_loop (c # cs) tot =
     (if cp_Index c < 0 \<or> cp_CDigest c = [] then
        Inl (Errorf (''replication: invalid chunk '' @ showInt (cp_Index c)))
      else totalChunkBytes_loop cs (wrap64 (tot + cp_Bytes c)))"

definition totalChunkBytes :: "ChunkPlan list \<Rightarrow> int result" where
  "totalChunkBytes chunks = totalChunkBytes_loop chunks 0"

fun totalSnapshotBytes_loop :: "Chunk list \<Rightarrow> int \<Rightarrow> int result" where
  "totalSnapshotBytes_loop [] tot = Inr tot"
| "totalSnapshotBytes_loop (c # cs) tot =
     (if c_Index c < 0 \<or> c_Digest c = [] then
        Inl (Errorf (''replication: invalid chunk '' @ showInt (c_Index c)))
      else totalSnapshotBytes_loop cs (wrap64 (tot + int (length (c_Data c)))))"

definition totalSnapshotBytes :: "Chunk list \<Rightarrow> int result" where
  "totalSnapshotBytes chunks = totalSnapshotBytes_loop chunks 0"

definition eligibleForChunks :: "ChunkPlan list \<Rightarrow> Dispatcher \<Rightarrow> (Destination list \<times> int) result" where
  "eligibleForChunks chunks d =
     (case totalChunkBytes chunks of
        Inl e \<Rightarrow> Inl e
      | Inr tot \<Rightarrow> Inr (registry_Eligible tot (di_registry d), tot))"

definition planGuard :: "Snapshot \<Rightarrow> error option" where
  "planGuard snapshot =
     (case snd (planableSnapshotState snapshot) of
        Some e \<Rightarrow> Some e
      | None \<Rightarrow>
          (case totalSnapshotBytes (s_Chunks snapshot) of
             Inl e \<Rightarrow> Some e
           | Inr tot \<Rightarrow> if tot \<le> 0 then
               Some (Errorf (''replication: snapshot '' @ s_ID snapshot @ '' has no bytes to replicate''))
             else None))"

definition reservePlan :: "clock \<Rightarrow> Plan \<Rightarrow> Dispatcher \<Rightarrow> Dispatcher \<times> error option" where
  "reservePlan ck plan d =
     (if budget_HasReservation (pl_ID plan) (di_budget d) then
        (auditIf ''replication-quota-rejected'' (pl_SnapshotID plan) (pl_ID plan) (ck 1) d,
         Some (Errorf (''replication: plan '' @ pl_ID plan @ '' already reserved'')))
      else case budget_Reserve (pl_ID plan) (pl_TotalBytes plan) (di_budget d) of
        (b, False) \<Rightarrow>
          (auditIf ''replication-quota-rejected'' (pl_SnapshotID plan) (pl_ID plan) (ck 2)
             (d\<lparr>di_budget := b\<rparr>),
           Some (Errorf (''replication: quota exhausted for plan '' @ pl_ID plan)))
      | (b, True) \<Rightarrow> (d\<lparr>di_budget := b\<rparr>, None))"

definition releasePlan :: "Plan \<Rightarrow> Dispatcher \<Rightarrow> Dispatcher" where
  "releasePlan plan d = d\<lparr>di_budget := fst (budget_Release (pl_ID plan) (di_budget d))\<rparr>"

definition journalPlan :: "clock \<Rightarrow> Plan \<Rightarrow> Dispatcher \<Rightarrow> Dispatcher \<times> error option" where
  "journalPlan ck plan d =
     (case di_journal d of
        None \<Rightarrow> (d, None)
      | Some l \<Rightarrow>
          if journal_Closed (Some l) then
            (auditIf ''replication-plan-rolled-back'' (pl_SnapshotID plan)
               (''plan='' @ pl_ID plan @ '' reason='' @ ''journal-closed'') (ck 3) (releasePlan plan d),
             Some ErrJournalClosed)
          else
            let entry = \<lparr>j_Sequence = 0, j_Generation = pl_Generation plan, j_Kind = ''replication-plan'',
                  j_SnapshotID = pl_SnapshotID plan, j_Operation = pl_ID plan,
                  j_Detail = ''destinations='' @ showNat (length (pl_Destinations plan))
                    @ '' bytes='' @ showInt (pl_TotalBytes plan),
                  j_RecordedAt = ck 4\<rparr>
            in (case journal_Append entry l of
                  (l', Inl e) \<Rightarrow>
                    (auditIf ''replication-plan-rolled-back'' (pl_SnapshotID plan) (pl_ID plan) (ck 5)
                       (releasePlan plan (d\<lparr>di_journal := Some l'\<rparr>)), Some e)
                | (l', Inr _) \<Rightarrow> (d\<lparr>di_journal := Some l'\<rparr>, None)))"

definition finishPlan :: "clock \<Rightarrow> Plan \<Rightarrow> Dispatcher \<Rightarrow> Dispatcher \<times> error option" where
  "finishPlan ck plan d =
     (case reservePlan ck plan d of
        (d1, Some e) \<Rightarrow> (d1, Some e)
      | (d1, None) \<Rightarrow>
          (case journalPlan ck plan d1 of
             (d2, Some e) \<Rightarrow> (d2, Some e)
           | (d2, None) \<Rightarrow>
               (auditIf ''replication-planned'' (pl_SnapshotID plan) (pl_ID plan) (ck 6) d2, None)))"

text \<open>
  \<open>Plan\<close> and \<open>PlanSnapshot\<close> return the plan beside the error of \<open>finishPlan\<close>; before that
  they return the zero plan.
\<close>

definition dispatcher_Plan ::
  "clock \<Rightarrow> string \<Rightarrow> u64 \<Rightarrow> ChunkPlan list \<Rightarrow> Dispatcher \<Rightarrow> Dispatcher \<times> Plan \<times> error option" where
  "dispatcher_Plan ck snapshotID generation chunks d =
     (if snapshotID = [] \<or> chunks = [] then
        (d, zeroPlan, Some (Errorf ''replication: incomplete dispatch request''))
      else case eligibleForChunks chunks d of
        Inl e \<Rightarrow> (d, zeroPlan, Some e)
      | Inr (destinations, tot) \<Rightarrow>
          if destinations = [] then (d, zeroPlan, Some (Errorf ''replication: no destination capacity''))
          else let plan = \<lparr>pl_ID = planID snapshotID generation, pl_SnapshotID = snapshotID,
                 pl_Generation = generation, pl_Destinations = destinations, pl_Chunks = chunks,
                 pl_TotalBytes = tot, pl_CreatedAtUnix = tUnix (ck 0)\<rparr>;
                   (d', err) = finishPlan ck plan d
               in (d', plan, err))"

definition dispatcher_PlanSnapshot ::
  "clock \<Rightarrow> Snapshot \<Rightarrow> Dispatcher \<Rightarrow> Dispatcher \<times> Plan \<times> error option" where
  "dispatcher_PlanSnapshot ck snapshot d =
     (case planGuard snapshot of
        Some e \<Rightarrow> (d, zeroPlan, Some e)
      | None \<Rightarrow>
     (case validatePlanableSnapshot snapshot of
        Some e \<Rightarrow> (d, zeroPlan, Some e)
      | None \<Rightarrow>
     (case totalSnapshotBytes (s_Chunks snapshot) of
        Inl e \<Rightarrow> (d, zeroPlan, Some e)
      | Inr tot \<Rightarrow>
          let destinations = registry_Eligible tot (di_registry d) in
          (case planner_Build snapshot destinations (tUnix (ck 0)) of
             Inl e \<Rightarrow> (d, zeroPlan, Some e)
           | Inr plan \<Rightarrow> let (d', err) = finishPlan ck plan d in (d', plan, err)))))"

definition markCompleted :: "string \<Rightarrow> Dispatcher \<Rightarrow> Dispatcher \<times> bool" where
  "markCompleted pid d =
     (if mgetd False (di_completed d) pid then (d, False)
      else (d\<lparr>di_completed := mput (di_completed d) pid True\<rparr>, True))"

fun complete_loop ::
  "clock \<Rightarrow> nat \<Rightarrow> time \<Rightarrow> Plan \<Rightarrow> bool \<Rightarrow> Destination list \<Rightarrow> rWindow \<Rightarrow> rWindow" where
  "complete_loop ck i now plan succeeded [] w = w"
| "complete_loop ck i now plan succeeded (dest # dests) w =
     complete_loop ck (i + 2) now plan succeeded dests
       (replication_WindowAdd (ck i, ck (i + 1))
         \<lparr>ro_PlanID = pl_ID plan, ro_Destination = de_ID dest, ro_Succeeded = succeeded,
          ro_Bytes = pl_TotalBytes plan, ro_At = now\<rparr> w)"

definition dispatcher_Complete :: "clock \<Rightarrow> Plan \<Rightarrow> bool \<Rightarrow> Dispatcher \<Rightarrow> Dispatcher" where
  "dispatcher_Complete ck plan succeeded d =
     (case markCompleted (pl_ID plan) d of
        (d1, False) \<Rightarrow> d1
      | (d1, True) \<Rightarrow>
          let d2 = releasePlan plan d1;
              now = tUTC (ck 0);
              d3 = d2\<lparr>di_window := complete_loop ck 1 now plan succeeded (pl_Destinations plan) (di_window d2)\<rparr>
          in auditIf ''replication-completed'' (pl_SnapshotID plan)
               (''plan='' @ pl_ID plan @ '' success='' @ showBool succeeded) now d3)"

definition dispatcher_Status :: "Dispatcher \<Rightarrow> int \<times> nat" where
  "dispatcher_Status d = (fst (budget_Snapshot (di_budget d)), mlen (di_completed d))"

definition dispatcher_OutcomeSummary :: "time \<Rightarrow> Dispatcher \<Rightarrow> Dispatcher \<times> nat \<times> nat \<times> nat" where
  "dispatcher_OutcomeSummary now d =
     (let (w, items) = replication_WindowSnapshot now (di_window d)
      in (d\<lparr>di_window := w\<rparr>, length items, length (filter ro_Succeeded items),
          length (filter (\<lambda>i. \<not> ro_Succeeded i) items)))"

definition dispatcher_BudgetUsed :: "Dispatcher \<Rightarrow> int" where
  "dispatcher_BudgetUsed d = budget_Used (di_budget d)"

definition dispatcher_Outcomes :: "time \<Rightarrow> Dispatcher \<Rightarrow> Dispatcher \<times> rOutcome list" where
  "dispatcher_Outcomes now d =
     (let (w, items) = replication_WindowSnapshot now (di_window d) in (d\<lparr>di_window := w\<rparr>, items))"

datatype dispatch_op =
    XPlan clock string u64 "ChunkPlan list" | XPlanSnapshot clock Snapshot | XComplete clock Plan bool

fun dispatch_step :: "dispatch_op \<Rightarrow> Dispatcher \<Rightarrow> Dispatcher" where
  "dispatch_step (XPlan ck i g cs) d = fst (dispatcher_Plan ck i g cs d)"
| "dispatch_step (XPlanSnapshot ck sn) d = fst (dispatcher_PlanSnapshot ck sn d)"
| "dispatch_step (XComplete ck p ok) d = dispatcher_Complete ck p ok d"

section \<open>What finishing a plan does\<close>

lemma auditIf_frame [simp]:
  "di_registry (auditIf k ob de t d) = di_registry d" "di_budget (auditIf k ob de t d) = di_budget d"
  "di_window (auditIf k ob de t d) = di_window d" "di_journal (auditIf k ob de t d) = di_journal d"
  "di_completed (auditIf k ob de t d) = di_completed d"
  by (simp_all add: auditIf_def)

abbreviation reserved :: "Dispatcher \<Rightarrow> string \<Rightarrow> int option" where
  "reserved d \<equiv> mget (bud_reservations (di_budget d))"

text \<open>A reservation that is taken back leaves the budget as it was.\<close>

lemma Reserve_Release_same:
  assumes "budget_ok b" and "in_int64 (bud_used b + n)" and "budget_Reserve k n b = (b1, True)"
  shows "fst (budget_Release k b1) = b"
proof -
  obtain b2 m where r: "budget_Release k b1 = (b2, m)" by (cases "budget_Release k b1")
  from budget.reserve_release [OF assms r]
  have u: "bud_used b2 = bud_used b" "bud_limit b2 = bud_limit b" by simp_all
  have b1: "b1 = b\<lparr>bud_reservations := mput (bud_reservations b) k n, bud_used := bud_used b + n\<rparr>"
    and k: "mget (bud_reservations b) k = None"
    using assms by (auto simp: budget_Reserve_def wrap64_id split: if_splits)
  have "budget_ok b1" using budget.granted [OF assms] by simp
  from budget_Release_spec [OF this r] have "bud_reservations b2 = mdel (bud_reservations b1) k" by simp
  with b1 k u have "b2 = b" by (simp add: mdel_mput_new)
  with r show ?thesis by simp
qed

definition plan_fits :: "Plan \<Rightarrow> Dispatcher \<Rightarrow> bool" where
  "plan_fits plan d \<longleftrightarrow> in_int64 (bud_used (di_budget d) + pl_TotalBytes plan)"

lemma finishPlan_error:
  assumes "budget_ok (di_budget d)" and "plan_fits plan d" and "finishPlan ck plan d = (d', Some e)"
  shows "d' = d\<lparr>di_audit := di_audit d'\<rparr>"
proof (cases "budget_HasReservation (pl_ID plan) (di_budget d)")
  case True
  with assms(3) show ?thesis by (auto simp: finishPlan_def reservePlan_def auditIf_def)
next
  case False
  obtain b ok where r: "budget_Reserve (pl_ID plan) (pl_TotalBytes plan) (di_budget d) = (b, ok)"
    by (cases "budget_Reserve (pl_ID plan) (pl_TotalBytes plan) (di_budget d)")
  show ?thesis
  proof (cases ok)
    case no: False
    with r have "b = di_budget d" by (intro budget.refused [of "pl_ID plan" "pl_TotalBytes plan"]) simp
    with assms(3) r no False show ?thesis by (auto simp: finishPlan_def reservePlan_def auditIf_def)
  next
    case True
    with r have b: "budget_Reserve (pl_ID plan) (pl_TotalBytes plan) (di_budget d) = (b, True)" by simp
    have given_back: "fst (budget_Release (pl_ID plan) b) = di_budget d"
      using Reserve_Release_same [OF assms(1) _ b] assms(2) by (simp add: plan_fits_def)
    show ?thesis
      using False b assms(3) given_back
      by (cases "di_journal d")
        (auto simp: finishPlan_def reservePlan_def journalPlan_def releasePlan_def auditIf_def
          journal_Closed_def journal_Append_def Let_def split: if_splits)
  qed
qed

lemma finishPlan_ok:
  assumes "finishPlan ck plan d = (d', None)"
  shows "\<exists>b. budget_Reserve (pl_ID plan) (pl_TotalBytes plan) (di_budget d) = (b, True)
    \<and> di_budget d' = b \<and> di_window d' = di_window d \<and> di_completed d' = di_completed d
    \<and> di_registry d' = di_registry d
    \<and> (case di_journal d of None \<Rightarrow> di_journal d' = None
       | Some l \<Rightarrow> \<not> log_closed l \<and> (\<exists>e l'. di_journal d' = Some l' \<and> log_entries l' = log_entries l @ [e]
           \<and> j_Kind e = ''replication-plan'' \<and> j_Operation e = pl_ID plan \<and> j_SnapshotID e = pl_SnapshotID plan
           \<and> j_Generation e = pl_Generation plan))"
proof -
  have nr: "\<not> budget_HasReservation (pl_ID plan) (di_budget d)"
    using assms by (auto simp: finishPlan_def reservePlan_def split: if_splits)
  obtain b ok where b: "budget_Reserve (pl_ID plan) (pl_TotalBytes plan) (di_budget d) = (b, ok)"
    by (cases "budget_Reserve (pl_ID plan) (pl_TotalBytes plan) (di_budget d)")
  with nr assms have "ok" by (cases ok) (auto simp: finishPlan_def reservePlan_def)
  with nr b assms show ?thesis
    by (cases "di_journal d")
      (auto simp: finishPlan_def reservePlan_def journalPlan_def journal_Closed_def journal_Append_def Let_def
        split: if_splits)
qed

section \<open>What planning does\<close>

lemma PlanSnapshot_cases:
  assumes "dispatcher_PlanSnapshot ck sn d = (d', plan, err)"
  obtains e where "d' = d" and "plan = zeroPlan" and "err = Some e"
  | t where "planner_Build sn (registry_Eligible t (di_registry d)) (tUnix (ck 0)) = Inr plan"
      and "totalSnapshotBytes (s_Chunks sn) = Inr t" and "0 < t"
      and "finishPlan ck plan d = (d', err)"
  using assms
  by (auto simp: dispatcher_PlanSnapshot_def planGuard_def Let_def split_beta
      split: option.splits sum.splits if_splits) metis

lemma Plan_cases:
  assumes "dispatcher_Plan ck i g cs d = (d', plan, err)"
  obtains e where "d' = d" and "plan = zeroPlan" and "err = Some e"
  | "finishPlan ck plan d = (d', err)" and "pl_ID plan = planID i g"
  using assms
  by (auto simp: dispatcher_Plan_def Let_def split_beta split: sum.splits if_splits)

text \<open>A reservation that stands, of a plan already completed, stands after every operation.\<close>

definition stuck :: "string \<Rightarrow> int \<Rightarrow> Dispatcher \<Rightarrow> bool" where
  "stuck pid n d \<longleftrightarrow> pid \<noteq> [] \<and> reserved d pid = Some n \<and> mgetd False (di_completed d) pid"

lemma Reserve_other:
  assumes "budget_Reserve k n b = (b', ok)" and "mget (bud_reservations b) pid = Some m"
  shows "mget (bud_reservations b') pid = Some m \<and> (ok \<longrightarrow> k \<noteq> pid)"
  using assms by (auto simp: budget_Reserve_def gomap_simps split: if_splits)

lemma Release_other:
  "k \<noteq> pid \<Longrightarrow> mget (bud_reservations (fst (budget_Release k b))) pid = mget (bud_reservations b) pid"
  by (simp add: budget_Release_def Let_def gomap_simps)

lemma stuck_finishPlan:
  assumes "stuck pid n d"
  shows "stuck pid n (fst (finishPlan ck plan d))
    \<and> (pl_ID plan = pid \<longrightarrow>
        snd (finishPlan ck plan d) = Some (Errorf (''replication: plan '' @ pid @ '' already reserved'')))"
proof (cases "budget_HasReservation (pl_ID plan) (di_budget d)")
  case True
  with assms show ?thesis by (auto simp: finishPlan_def reservePlan_def stuck_def)
next
  case False
  obtain b ok where r: "budget_Reserve (pl_ID plan) (pl_TotalBytes plan) (di_budget d) = (b, ok)"
    by (cases "budget_Reserve (pl_ID plan) (pl_TotalBytes plan) (di_budget d)")
  have o: "mget (bud_reservations b) pid = Some n" "ok \<Longrightarrow> pl_ID plan \<noteq> pid"
    using Reserve_other [OF r, of pid n] assms by (auto simp: stuck_def)
  have ne: "pl_ID plan \<noteq> pid" using False assms by (auto simp: budget_HasReservation_def stuck_def)
  show ?thesis
  proof (cases ok)
    case no: False
    with False r o ne assms show ?thesis by (simp add: finishPlan_def reservePlan_def stuck_def)
  next
    case True
    with False r o ne assms show ?thesis
      by (cases "di_journal d")
        (auto simp: finishPlan_def reservePlan_def journalPlan_def releasePlan_def Release_other stuck_def
          journal_Closed_def journal_Append_def Let_def)
  qed
qed

lemma stuck_step: "stuck pid n d \<Longrightarrow> stuck pid n (dispatch_step op d)"
proof (cases op)
  case (XPlan ck i g cs)
  assume s: "stuck pid n d"
  obtain d' plan err where r: "dispatcher_Plan ck i g cs d = (d', plan, err)"
    by (cases "dispatcher_Plan ck i g cs d")
  from r show ?thesis
    by (rule Plan_cases) (use s stuck_finishPlan [OF s, of ck plan] XPlan r in auto)
next
  case (XPlanSnapshot ck sn)
  assume s: "stuck pid n d"
  obtain d' plan err where r: "dispatcher_PlanSnapshot ck sn d = (d', plan, err)"
    by (cases "dispatcher_PlanSnapshot ck sn d")
  from r show ?thesis
    by (rule PlanSnapshot_cases) (use s stuck_finishPlan [OF s, of ck plan] XPlanSnapshot r in auto)
next
  case (XComplete ck p ok)
  assume s: "stuck pid n d"
  then show ?thesis
    using XComplete
    by (cases "pl_ID p = pid")
      (auto simp: dispatcher_Complete_def markCompleted_def stuck_def releasePlan_def Release_other Let_def)
qed

lemma stuck_run: "stuck pid n d \<Longrightarrow> stuck pid n (fold dispatch_step ops d)"
  by (induction ops arbitrary: d) (simp_all add: stuck_step)

section \<open>Properties\<close>

text \<open>
  C11: planning is all or nothing. When \<open>PlanSnapshot\<close> reports an error, whatever the reason, the
  budget, the journal, the outcomes and the set of completed plans are as before (the audit ledger
  may hold the refusal): a reservation made for a plan that could not be journalled has been given
  back. When it succeeds, exactly the plan's total is reserved under the plan's id, which was not
  reserved before, and stays within the limit, and the journal, if there is one, is open and has
  exactly one more entry, the plan's.
\<close>

theorem replication_plan_all_or_nothing:
  assumes "budget_ok (di_budget d)" and "in_int64 (bud_used (di_budget d) + dataBytes (s_Chunks sn))"
    and "in_int64 (dataBytes (s_Chunks sn))"
    and "dispatcher_PlanSnapshot ck sn d = (d', plan, err)"
  shows "case err of
      Some e \<Rightarrow> di_budget d' = di_budget d \<and> di_journal d' = di_journal d \<and> di_window d' = di_window d
        \<and> di_completed d' = di_completed d \<and> di_registry d' = di_registry d
    | None \<Rightarrow> pl_ID plan = planID (s_ID sn) (s_Generation sn) \<and> pl_TotalBytes plan = dataBytes (s_Chunks sn)
        \<and> reserved d (pl_ID plan) = None \<and> reserved d' = (reserved d)(pl_ID plan \<mapsto> pl_TotalBytes plan)
        \<and> dispatcher_BudgetUsed d' = dispatcher_BudgetUsed d + pl_TotalBytes plan
        \<and> dispatcher_BudgetUsed d' \<le> bud_limit (di_budget d)
        \<and> (\<forall>l. di_journal d = Some l \<longrightarrow> \<not> log_closed l \<and> (\<exists>l' e. di_journal d' = Some l'
             \<and> log_entries l' = log_entries l @ [e] \<and> j_Operation e = pl_ID plan))"
  using assms(4)
proof (rule PlanSnapshot_cases)
  fix t
  assume p: "planner_Build sn (registry_Eligible t (di_registry d)) (tUnix (ck 0)) = Inr plan"
    and f: "finishPlan ck plan d = (d', err)"
  have pl: "pl_ID plan = planID (s_ID sn) (s_Generation sn)" "pl_TotalBytes plan = dataBytes (s_Chunks sn)"
    using Build_Inr [OF p] assms(3) by (simp_all add: wrap64_id)
  then have fits: "plan_fits plan d" using assms(2) by (simp add: plan_fits_def)
  show ?thesis
  proof (cases err)
    case (Some e)
    with finishPlan_error [OF assms(1) fits] f have "d' = d\<lparr>di_audit := di_audit d'\<rparr>" by blast
    then have "di_budget d' = di_budget d \<and> di_journal d' = di_journal d \<and> di_window d' = di_window d
        \<and> di_completed d' = di_completed d \<and> di_registry d' = di_registry d"
      by (metis Dispatcher.surjective Dispatcher.update_convs(5) Dispatcher.ext_inject)
    with Some show ?thesis by simp
  next
    case None
    with finishPlan_ok f obtain b
      where b: "budget_Reserve (pl_ID plan) (pl_TotalBytes plan) (di_budget d) = (b, True)" "di_budget d' = b"
        and j: "case di_journal d of None \<Rightarrow> di_journal d' = None
       | Some l \<Rightarrow> \<not> log_closed l \<and> (\<exists>e l'. di_journal d' = Some l' \<and> log_entries l' = log_entries l @ [e]
           \<and> j_Kind e = ''replication-plan'' \<and> j_Operation e = pl_ID plan \<and> j_SnapshotID e = pl_SnapshotID plan
           \<and> j_Generation e = pl_Generation plan)" by blast
    note g = budget.granted [OF assms(1) fits [unfolded plan_fits_def] b(1)]
    show ?thesis
      using None pl b(2) g j budget.within [of b]
      by (auto simp: dispatcher_BudgetUsed_def budget_Used_def)
  qed
qed simp

definition sample_dispatcher :: Dispatcher where
  "sample_dispatcher = dispatcher_New
     (fst (registry_Register zeroTime (sample_dest ''a'' ''west'' 50) registry_NewRegistry))
     (budget_NewBudget 100) (Some journal_New) None"

definition sample_snap :: Snapshot where
  "sample_snap = sample_published [sample_chunk 0 [7]]"

definition planned_once :: Dispatcher where
  "planned_once = fst (dispatcher_PlanSnapshot (\<lambda>_. zeroTime) sample_snap sample_dispatcher)"

lemma planID_nonempty [simp]: "planID i g \<noteq> []"
  by (simp add: planID_def)

lemmas sample_plan_defs =
  dispatcher_PlanSnapshot_def planGuard_def validatePlanableSnapshot_def planableSnapshotState_def
  totalSnapshotBytes_def planner_Build_def validateDestinationCapacity_def registry_Eligible_def
  finishPlan_def reservePlan_def journalPlan_def journal_Closed_def journal_Append_def
  budget_HasReservation_def budget_Reserve_def sample_snap_def sample_published_def sample_chunk_def

lemma sample_dispatcher_fields [simp]:
  "mvals (rr_destinations (di_registry sample_dispatcher)) = [sample_dest ''a'' ''west'' 50]"
  "di_budget sample_dispatcher = budget_NewBudget 100" "di_completed sample_dispatcher = mempty"
  "di_journal sample_dispatcher = Some journal_New" "di_audit sample_dispatcher = None"
  by (simp_all add: sample_dispatcher_def dispatcher_New_def registry_Register_def sample_dest_def
      registry_NewRegistry_def entries_mput IsZero_def)

lemma sample_planned:
  "snd (snd (dispatcher_PlanSnapshot (\<lambda>_. zeroTime) sample_snap sample_dispatcher)) = None"
  by (simp add: sample_plan_defs sample_dest_def wrap64_def budget_NewBudget_def journal_New_def Let_def)

lemma sample_budget_ok: "budget_ok (di_budget sample_dispatcher)"
  by (simp add: budget_ok_New in_int64_def minInt64_def maxInt64_def)

lemma replication_plan_witness:
  "reserved planned_once (planID ''s'' 1) = Some 1 \<and> dispatcher_BudgetUsed planned_once = 1"
proof -
  let ?r = "dispatcher_PlanSnapshot (\<lambda>_. zeroTime) sample_snap sample_dispatcher"
  have n: "dataBytes (s_Chunks sample_snap) = 1" "s_ID sample_snap = ''s''" "s_Generation sample_snap = 1"
    by (simp_all add: sample_snap_def sample_published_def sample_chunk_def dataBytes_def)
  have r: "?r = (planned_once, fst (snd ?r), None)"
    using sample_planned by (simp add: planned_once_def prod_eq_iff)
  have "in_int64 (bud_used (di_budget sample_dispatcher) + dataBytes (s_Chunks sample_snap))"
    "in_int64 (dataBytes (s_Chunks sample_snap))"
    by (simp_all add: n budget_NewBudget_def in_int64_def minInt64_def maxInt64_def)
  from replication_plan_all_or_nothing [OF sample_budget_ok this r] show ?thesis
    by (simp add: n dispatcher_BudgetUsed_def budget_Used_def budget_NewBudget_def)
qed

text \<open>
  C12: completing a plan releases its reservation once: the first \<open>Complete\<close> takes its bytes off
  the budget and records the outcome for destinations; every further one for the same plan id,
  with whatever outcome, changes nothing at all.
\<close>

theorem replication_complete_once:
  assumes "budget_ok (di_budget d)" and "\<not> mgetd False (di_completed d) (pl_ID plan)"
    and "d1 = dispatcher_Complete ck plan ok d" and "pl_ID plan' = pl_ID plan"
  shows "reserved d1 = (reserved d)(pl_ID plan := None)
    \<and> dispatcher_BudgetUsed d1 = dispatcher_BudgetUsed d - mgetd 0 (bud_reservations (di_budget d)) (pl_ID plan)
    \<and> budget_ok (di_budget d1)
    \<and> dispatcher_Complete ck' plan' ok' d1 = d1"
proof -
  obtain b n where r: "budget_Release (pl_ID plan) (di_budget d) = (b, n)"
    by (cases "budget_Release (pl_ID plan) (di_budget d)")
  have d1: "di_budget d1 = b" "mgetd False (di_completed d1) (pl_ID plan)"
    using assms(2,3) r by (simp_all add: dispatcher_Complete_def markCompleted_def releasePlan_def Let_def)
  then have "dispatcher_Complete ck' plan' ok' d1 = d1"
    using assms(4) by (simp add: dispatcher_Complete_def markCompleted_def)
  moreover have "mget (mdel (bud_reservations (di_budget d)) (pl_ID plan)) = (reserved d)(pl_ID plan := None)"
    by (auto simp: gomap_simps fun_eq_iff)
  ultimately show ?thesis
    using budget_Release_spec [OF assms(1) r] d1 by (simp add: dispatcher_BudgetUsed_def budget_Used_def)
qed

definition sample_plan :: Plan where
  "sample_plan = zeroPlan\<lparr>pl_ID := planID ''s'' 1, pl_SnapshotID := ''s'', pl_TotalBytes := 1\<rparr>"

lemma replication_complete_witness:
  "let d1 = dispatcher_Complete (\<lambda>_. zeroTime) sample_plan True sample_dispatcher
   in dispatcher_Complete (\<lambda>_. zeroTime) sample_plan False d1 = d1"
  using replication_complete_once [OF sample_budget_ok, of sample_plan _ "\<lambda>_. zeroTime" True sample_plan
      "\<lambda>_. zeroTime" False]
  by (simp add: Let_def)

text \<open>
  A plan id that was completed can be reserved again, by planning the same snapshot and
  generation once more, but never released: \<open>Complete\<close> takes the second plan for completed.
  Whatever is planned and completed afterwards, the reservation stands, and planning that snapshot
  and generation is refused as already reserved.
\<close>

theorem replication_replanned_reservation_leaks:
  assumes "reserved d pid = Some n" and "mgetd False (di_completed d) pid" and "pid \<noteq> []"
  shows "reserved (fold dispatch_step ops d) pid = Some n
    \<and> (\<forall>ck plan. pl_ID plan = pid \<longrightarrow> snd (finishPlan ck plan (fold dispatch_step ops d))
          = Some (Errorf (''replication: plan '' @ pid @ '' already reserved'')))"
proof -
  have "stuck pid n (fold dispatch_step ops d)"
    by (rule stuck_run) (use assms in \<open>simp add: stuck_def\<close>)
  then show ?thesis using stuck_finishPlan by (auto simp: stuck_def)
qed

definition replanned :: Dispatcher where
  "replanned = fst (dispatcher_PlanSnapshot (\<lambda>_. zeroTime) sample_snap
     (dispatcher_Complete (\<lambda>_. zeroTime) sample_plan True planned_once))"

lemma replication_leak_witness:
  "reserved (fold dispatch_step [XComplete (\<lambda>_. zeroTime) sample_plan True] replanned) (planID ''s'' 1) = Some 1"
proof -
  have c: "mgetd False (di_completed replanned) (planID ''s'' 1)" and r: "reserved replanned (planID ''s'' 1) = Some 1"
    by (simp_all add: replanned_def planned_once_def sample_plan_defs sample_dest_def wrap64_def
        budget_NewBudget_def journal_New_def Let_def dispatcher_Complete_def markCompleted_def releasePlan_def
        budget_Release_def sample_plan_def zeroPlan_def auditIf_def)
  show ?thesis
    using replication_replanned_reservation_leaks [OF r c, of "[XComplete (\<lambda>_. zeroTime) sample_plan True]"]
    by simp
qed

end
