(* ===== verification/Orchestrator.thy ===== *)
theory Orchestrator
  imports Complex_Main TimeWindow Journal AuditLedger Contracts
begin

text \<open>
  Package \<open>orchestrator\<close> (\<open>internal/orchestrator/policy.go\<close>, \<open>scheduler.go\<close>,
  \<open>runbook.go\<close>, \<open>window.go\<close>, \<open>controller.go\<close>): policies with a daily window, the schedule
  of their runs, the runs with a limit of concurrent ones per policy, and the controller that
  executes a run and always finishes it.

  The wall clock depends on the zone of a time, whose offsets are the argument \<open>tz\<close>. The limit of
  a policy is a function the runbook was given; it is an argument of \<open>Start\<close>, so that it may
  change between calls.
\<close>

section \<open>Policies\<close>

record oPolicy =
  po_ID :: string
  po_Interval :: duration
  po_Enabled :: bool
  po_AllowedStart :: duration
  po_AllowedEnd :: duration
  po_MaxConcurrent :: int

definition orchestrator_Validate :: "oPolicy \<Rightarrow> error option" where
  "orchestrator_Validate p =
     (if po_ID p = [] then Some (Errorf ''orchestrator: policy id is empty'')
      else if po_Interval p \<le> 0 then
        Some (Errorf (''orchestrator: policy '' @ po_ID p @ '' interval must be positive''))
      else if po_MaxConcurrent p < 1 then
        Some (Errorf (''orchestrator: policy '' @ po_ID p @ '' max concurrent must be positive''))
      else if po_AllowedStart p < 0 \<or> po_AllowedEnd p > 24 * Hour \<or> po_AllowedStart p \<ge> po_AllowedEnd p then
        Some (Errorf (''orchestrator: policy '' @ po_ID p @ '' has an invalid window''))
      else None)"

definition policy_Allows :: "tzdata \<Rightarrow> time \<Rightarrow> oPolicy \<Rightarrow> bool" where
  "policy_Allows tz now p =
     (if \<not> po_Enabled p then False
      else let daySeconds = tHour tz now * Hour + tMinute tz now * Minute + tSecond tz now * Second
                 + tNanosecond tz now
           in daySeconds \<ge> po_AllowedStart p \<and> daySeconds < po_AllowedEnd p)"

definition policy_NextAfter :: "time \<Rightarrow> oPolicy \<Rightarrow> time" where
  "policy_NextAfter now p = tAdd now (po_Interval p)"

section \<open>Runs\<close>

record oRun =
  ru_ID :: string
  ru_PolicyID :: string
  ru_Generation :: u64
  ru_SnapshotID :: string
  ru_StartedAt :: time
  ru_FinishedAt :: time
  ru_Succeeded :: bool

record Runbook =
  rb_next :: u64
  rb_runs :: "(string, oRun) gomap"
  rb_active :: "(string, int) gomap"
  rb_last :: "(string, oRun) gomap"

definition runbook_New :: Runbook where
  "runbook_New = \<lparr>rb_next = 0, rb_runs = mempty, rb_active = mempty, rb_last = mempty\<rparr>"

definition runName :: "u64 \<Rightarrow> string" where
  "runName n = ''run-'' @ showU64 n"

definition runbook_Start :: "(string \<Rightarrow> int) \<Rightarrow> string \<Rightarrow> time \<Rightarrow> Runbook \<Rightarrow> Runbook \<times> oRun result" where
  "runbook_Start limit policyID now r =
     (if mgetd 0 (rb_active r) policyID \<ge> limit policyID then (r, Inl ErrConcurrency)
      else let n = rb_next r + 1;
               run = \<lparr>ru_ID = runName n, ru_PolicyID = policyID, ru_Generation = n,
                 ru_SnapshotID = [], ru_StartedAt = tUTC now, ru_FinishedAt = zeroTime, ru_Succeeded = False\<rparr>
           in (r\<lparr>rb_next := n, rb_runs := mput (rb_runs r) (ru_ID run) run,
                 rb_active := mput (rb_active r) policyID (wrap64 (mgetd 0 (rb_active r) policyID + 1))\<rparr>,
               Inr run))"

definition runbook_Finish :: "string \<Rightarrow> bool \<Rightarrow> time \<Rightarrow> Runbook \<Rightarrow> Runbook \<times> error option" where
  "runbook_Finish runID succeeded now r =
     (case mget (rb_runs r) runID of
        None \<Rightarrow> (r, Some (Errorf (''orchestrator: run '' @ runID @ '' missing'')))
      | Some run \<Rightarrow>
          if \<not> IsZero (ru_FinishedAt run) then
            (r, Some (Errorf (''orchestrator: run '' @ runID @ '' already finished'')))
          else let run' = run\<lparr>ru_FinishedAt := tUTC now, ru_Succeeded := succeeded\<rparr>;
                   n = wrap64 (mgetd 0 (rb_active r) (ru_PolicyID run) - 1)
               in (r\<lparr>rb_runs := mput (rb_runs r) runID run',
                     rb_active := mput (rb_active r) (ru_PolicyID run) (if n < 0 then 0 else n),
                     rb_last := mput (rb_last r) (ru_PolicyID run) run'\<rparr>, None))"

definition runbook_Active :: "string \<Rightarrow> Runbook \<Rightarrow> int" where
  "runbook_Active policyID r = mgetd 0 (rb_active r) policyID"

definition runbook_Last :: "string \<Rightarrow> Runbook \<Rightarrow> oRun option" where
  "runbook_Last policyID r = mget (rb_last r) policyID"

text \<open>\<open>Runs\<close>, over the runs in the order the \<open>range\<close> visits them.\<close>

definition runbook_Runs :: "(string \<times> oRun) list \<Rightarrow> string \<Rightarrow> oRun list" where
  "runbook_Runs it policyID = filter (\<lambda>run. ru_PolicyID run = policyID) (map snd it)"

definition runbook_Total :: "Runbook \<Rightarrow> nat" where
  "runbook_Total r = mlen (rb_runs r)"

section \<open>The schedule\<close>

definition scheduler_Next :: "tzdata \<Rightarrow> oPolicy \<Rightarrow> oRun option \<Rightarrow> time \<Rightarrow> time result" where
  "scheduler_Next tz p lst now =
     (if \<not> po_Enabled p then Inl ErrDisabled
      else case orchestrator_Validate p of
        Some e \<Rightarrow> Inl e
      | None \<Rightarrow>
          let base = (case lst of None \<Rightarrow> now
                      | Some run \<Rightarrow> if \<not> IsZero (ru_FinishedAt run) then ru_FinishedAt run else now);
              c1 = tAdd base (po_Interval p);
              candidate = (if c1 < now then now else c1)
          in if \<not> policy_Allows tz candidate p then Inl ErrOutsideWindow else Inr candidate)"

definition scheduler_Elapsed :: "tzdata \<Rightarrow> oPolicy \<Rightarrow> time \<Rightarrow> duration result" where
  "scheduler_Elapsed tz p now =
     (if \<not> po_Enabled p then Inl ErrDisabled
      else case orchestrator_Validate p of
        Some e \<Rightarrow> Inl e
      | None \<Rightarrow>
          if \<not> policy_Allows tz now p then
            Inl (Errorf (''orchestrator: policy '' @ po_ID p @ '' outside window''))
          else Inr (tSub now (policy_NextAfter now p)))"

section \<open>The window of outcomes\<close>

record oOutcome =
  oo_PolicyID :: string
  oo_Succeeded :: bool
  oo_At :: time

record oWindow =
  ow_length :: duration
  ow_items :: "oOutcome list"

definition orchestrator_NewWindow :: "duration \<Rightarrow> oWindow" where
  "orchestrator_NewWindow len = \<lparr>ow_length = (if len \<le> 0 then 10 * Minute else len), ow_items = []\<rparr>"

definition orchestrator_pruneLocked :: "time \<Rightarrow> oWindow \<Rightarrow> oWindow" where
  "orchestrator_pruneLocked now w =
     (let cutoff = tAdd now (- ow_length w)
      in w\<lparr>ow_items := drop (first_kept oo_At cutoff (ow_items w)) (ow_items w)\<rparr>)"

definition orchestrator_WindowAdd :: "time \<times> time \<Rightarrow> oOutcome \<Rightarrow> oWindow \<Rightarrow> oWindow" where
  "orchestrator_WindowAdd cks outcome w =
     (let o1 = (if IsZero (oo_At outcome) then outcome\<lparr>oo_At := tUTC (fst cks)\<rparr> else outcome)
      in orchestrator_pruneLocked (snd cks) (w\<lparr>ow_items := ow_items w @ [o1]\<rparr>))"

definition orchestrator_WindowSnapshot :: "time \<Rightarrow> oWindow \<Rightarrow> oWindow \<times> oOutcome list" where
  "orchestrator_WindowSnapshot now w =
     (let w' = orchestrator_pruneLocked now w
      in (w', sort_by (\<lambda>a b. oo_At a < oo_At b) (ow_items w')))"

definition orchestrator_WindowFailureRate :: "time \<Rightarrow> oWindow \<Rightarrow> oWindow \<times> rat" where
  "orchestrator_WindowFailureRate now w =
     (let (w', items) = orchestrator_WindowSnapshot now w
      in (w', if items = [] then 0
              else of_nat (length (filter (\<lambda>i. \<not> oo_Succeeded i) items)) / of_nat (length items)))"

interpretation owindow: time_window ow_items ow_length oo_At orchestrator_pruneLocked
  by unfold_locales (simp_all add: orchestrator_pruneLocked_def Let_def)

section \<open>The controller\<close>

record Controller =
  co_runbook :: Runbook
  co_window :: oWindow
  co_journal :: "Log option"
  co_audit :: "Ledger option"

definition controller_New :: "Runbook \<Rightarrow> Log option \<Rightarrow> Ledger option \<Rightarrow> Controller" where
  "controller_New runbook journalLog ledger =
     \<lparr>co_runbook = runbook, co_window = orchestrator_NewWindow (10 * Minute), co_journal = journalLog,
      co_audit = ledger\<rparr>"

text \<open>The deferred function of \<open>Execute\<close>.\<close>

definition execute_deferred :: "clock \<Rightarrow> string \<Rightarrow> string \<Rightarrow> bool \<Rightarrow> Controller \<Rightarrow> Controller" where
  "execute_deferred ck policyID runID succeeded c =
     (let now = tUTC (ck 2)
      in c\<lparr>co_runbook := fst (runbook_Finish runID succeeded now (co_runbook c)),
           co_window := orchestrator_WindowAdd (ck 3, ck 4)
             \<lparr>oo_PolicyID = policyID, oo_Succeeded = succeeded, oo_At = now\<rparr> (co_window c)\<rparr>)"

definition controller_Execute ::
  "tzdata \<Rightarrow> clock \<Rightarrow> (string \<Rightarrow> int) \<Rightarrow> oPolicy \<Rightarrow> string \<Rightarrow> Controller \<Rightarrow> Controller \<times> error option" where
  "controller_Execute tz ck limit p snapshotID c =
     (if \<not> po_Enabled p then (c, Some ErrDisabled)
      else if \<not> policy_Allows tz (tUTC (ck 0)) p then (c, Some ErrOutsideWindow)
      else let started = tUTC (ck 1) in
        (case runbook_Start limit (po_ID p) started (co_runbook c) of
           (rb, Inl e) \<Rightarrow> (c\<lparr>co_runbook := rb\<rparr>, Some e)
         | (rb, Inr run) \<Rightarrow>
             let c1 = c\<lparr>co_runbook := rb\<rparr>;
                 entry = \<lparr>j_Sequence = 0, j_Generation = ru_Generation run, j_Kind = ''orchestration-run'',
                   j_SnapshotID = snapshotID, j_Operation = ru_ID run, j_Detail = po_ID p,
                   j_RecordedAt = started\<rparr>;
                 (c2, err) = (case co_journal c1 of
                     None \<Rightarrow> (c1, None)
                   | Some l \<Rightarrow> (case journal_Append entry l of
                         (l', Inl e) \<Rightarrow> (c1\<lparr>co_journal := Some l'\<rparr>, Some e)
                       | (l', Inr _) \<Rightarrow> (c1\<lparr>co_journal := Some l'\<rparr>, None)))
             in (case err of
                   Some e \<Rightarrow> (execute_deferred ck (po_ID p) (ru_ID run) False c2, Some e)
                 | None \<Rightarrow>
                     let c3 = c2\<lparr>co_audit := map_option
                           (\<lambda>a. fst (audit_Record ''orchestration-run'' snapshotID (ru_ID run) started a))
                           (co_audit c2)\<rparr>
                     in (execute_deferred ck (po_ID p) (ru_ID run) True c3, None))))"

definition controller_Outcomes :: "time \<Rightarrow> Controller \<Rightarrow> Controller \<times> oOutcome list" where
  "controller_Outcomes now c =
     (let (w, items) = orchestrator_WindowSnapshot now (co_window c) in (c\<lparr>co_window := w\<rparr>, items))"

definition controller_Scheduled :: "tzdata \<Rightarrow> oPolicy \<Rightarrow> oRun option \<Rightarrow> time \<Rightarrow> time result" where
  "controller_Scheduled tz p lst now = scheduler_Next tz p lst now"

definition controller_FailureRate :: "time \<Rightarrow> Controller \<Rightarrow> Controller \<times> rat" where
  "controller_FailureRate now c =
     (let (w, rate) = orchestrator_WindowFailureRate now (co_window c) in (c\<lparr>co_window := w\<rparr>, rate))"

definition controller_Describe :: "oRun option \<Rightarrow> string" where
  "controller_Describe run =
     (case run of
        None \<Rightarrow> ''run=<nil>''
      | Some r \<Rightarrow> ''run='' @ ru_ID r @ '' policy='' @ ru_PolicyID r @ '' gen='' @ showU64 (ru_Generation r)
          @ '' success='' @ showBool (ru_Succeeded r))"

section \<open>Unfinished runs\<close>

definition count_vals :: "('v \<Rightarrow> bool) \<Rightarrow> ('k, 'v) gomap \<Rightarrow> nat" where
  "count_vals P m = length (filter P (mvals m))"

lemma count_vals_mset: "count_vals P m = size (filter_mset P (image_mset snd (mset (entries m))))"
  unfolding count_vals_def by (metis mset_filter mset_map size_mset)

lemma count_vals_new:
  "mget m k = None \<Longrightarrow> count_vals P (mput m k v) = count_vals P m + (if P v then 1 else 0)"
  by (simp add: count_vals_def entries_mput_new)

lemma count_vals_old:
  assumes "mget m k = Some v0"
  shows "count_vals P (mput m k v) + (if P v0 then 1 else 0) = count_vals P m + (if P v then 1 else 0)"
proof -
  have "mget (mput m k v) k = Some v" by (simp add: gomap_simps)
  from mset_mdel [OF this] have "mset (entries (mput m k v)) = add_mset (k, v) (mset (entries (mdel (mput m k v) k)))" .
  moreover have "entries (mdel (mput m k v) k) = entries (mdel m k)"
    by (simp add: entries_mdel entries_mput delete_update_same)
  ultimately show ?thesis
    using mset_mdel [OF assms] by (simp add: count_vals_mset)
qed

definition unfinished :: "string \<Rightarrow> Runbook \<Rightarrow> nat" where
  "unfinished policyID r =
     count_vals (\<lambda>run. ru_PolicyID run = policyID \<and> IsZero (ru_FinishedAt run)) (rb_runs r)"

lemma runName_inject [simp]: "runName m = runName n \<longleftrightarrow> m = n"
  by (simp add: runName_def)

text \<open>
  The runs are numbered from 1 and stored under their number, so a new run has a new id as long as
  the counter has not wrapped; the active count of a policy is the number of its unfinished runs.
\<close>

definition runbook_ok :: "Runbook \<Rightarrow> bool" where
  "runbook_ok r \<longleftrightarrow>
     (\<forall>i run. mget (rb_runs r) i = Some run \<longrightarrow> ru_ID run = i \<and> i = runName (ru_Generation run)
        \<and> ru_Generation run \<le> rb_next r)
   \<and> (\<forall>p. mgetd 0 (rb_active r) p = int (unfinished p r))
   \<and> mlen (rb_runs r) = unat (rb_next r)"

lemma runbook_ok_New: "runbook_ok runbook_New"
  by (simp add: runbook_ok_def runbook_New_def unfinished_def count_vals_def)

lemma unfinished_le: "unfinished p r \<le> mlen (rb_runs r)"
  unfolding unfinished_def count_vals_def by (metis length_filter_le length_map)

text \<open>The counter is below its last value: the next number is a new one.\<close>

lemma Start_fresh:
  assumes "runbook_ok r" and "unat (rb_next r) < 2 ^ 64 - 1"
  shows "mget (rb_runs r) (runName (rb_next r + 1)) = None" and "unat (rb_next r + 1) = Suc (unat (rb_next r))"
proof -
  show u: "unat (rb_next r + 1) = Suc (unat (rb_next r))"
    using assms(2) by (simp add: unat_word_ariths)
  then have "\<not> rb_next r + 1 \<le> rb_next r" by (simp add: word_le_nat_alt)
  then show "mget (rb_runs r) (runName (rb_next r + 1)) = None"
    using assms(1) unfolding runbook_ok_def by (metis option.exhaust runName_inject)
qed

lemma runbook_ok_Start:
  assumes ok: "runbook_ok r" and small: "unat (rb_next r) < 2 ^ 63 - 1"
  shows "runbook_ok (fst (runbook_Start limit p now r))"
proof (cases "mgetd 0 (rb_active r) p \<ge> limit p")
  case True
  with ok show ?thesis by (simp add: runbook_Start_def)
next
  case False
  have n: "unat (rb_next r) < 2 ^ 64 - 1" using small by simp
  note fresh = Start_fresh [OF ok n]
  let ?r = "fst (runbook_Start limit p now r)"
  have le: "rb_next r \<le> rb_next r + 1" using fresh(2) by (simp add: word_le_nat_alt)
  have un: "unfinished q ?r = unfinished q r + (if q = p then 1 else 0)" for q
    using False fresh(1)
    by (simp add: runbook_Start_def Let_def unfinished_def count_vals_new)
  have "mgetd 0 (rb_active r) p = int (unfinished p r)" using ok by (simp add: runbook_ok_def)
  moreover have "unfinished p r < 2 ^ 63 - 1"
    using unfinished_le [of p r] ok small by (simp add: runbook_ok_def)
  ultimately have w: "wrap64 (mgetd 0 (rb_active r) p + 1) = int (unfinished p r) + 1"
    by (simp add: wrap64_id in_int64_def minInt64_def maxInt64_def)
  show ?thesis
    unfolding runbook_ok_def un
    using ok False fresh le w
    by (auto simp: runbook_ok_def runbook_Start_def Let_def gomap_simps mlen_mput intro: order_trans)
qed

lemma runbook_ok_Finish:
  assumes ok: "runbook_ok r" and "\<not> IsZero now" and small: "unat (rb_next r) < 2 ^ 63"
  shows "runbook_ok (fst (runbook_Finish i s now r))"
proof (cases "\<exists>run. mget (rb_runs r) i = Some run \<and> IsZero (ru_FinishedAt run)")
  case False
  with ok show ?thesis by (auto simp: runbook_Finish_def split: option.split)
next
  case True
  then obtain run where run: "mget (rb_runs r) i = Some run" "IsZero (ru_FinishedAt run)" by blast
  let ?p = "ru_PolicyID run" and ?r = "fst (runbook_Finish i s now r)"
  let ?run = "run\<lparr>ru_FinishedAt := tUTC now, ru_Succeeded := s\<rparr>"
  have un: "unfinished q ?r + (if q = ?p then 1 else 0) = unfinished q r" for q
    using count_vals_old [OF run(1), of "\<lambda>run. ru_PolicyID run = q \<and> IsZero (ru_FinishedAt run)" ?run]
      run assms(2)
    by (auto simp: runbook_Finish_def Let_def unfinished_def)
  have act: "mgetd 0 (rb_active r) q = int (unfinished q r)" for q using ok by (simp add: runbook_ok_def)
  have "1 \<le> unfinished ?p r" using un [of ?p] by simp
  moreover have "unfinished ?p r < 2 ^ 63" using unfinished_le [of ?p r] ok small by (simp add: runbook_ok_def)
  ultimately have w: "wrap64 (mgetd 0 (rb_active r) ?p - 1) = int (unfinished ?p r) - 1"
    unfolding act by (intro wrap64_id) (simp add: in_int64_def minInt64_def maxInt64_def)
  have "mgetd 0 (rb_active ?r) q = int (unfinished q ?r)" for q
    using un [of q] un [of ?p] run act [of q] w by (auto simp: runbook_Finish_def Let_def)
  then show ?thesis
    using ok run unfolding runbook_ok_def
    by (auto simp: runbook_Finish_def Let_def gomap_simps mlen_mput)
qed

datatype run_op = OStart string time | OFinish string bool time

fun run_step :: "(string \<Rightarrow> int) \<Rightarrow> run_op \<Rightarrow> Runbook \<Rightarrow> Runbook" where
  "run_step limit (OStart p now) r = fst (runbook_Start limit p now r)"
| "run_step limit (OFinish i s now) r = fst (runbook_Finish i s now r)"

fun proper :: "run_op \<Rightarrow> bool" where
  "proper (OStart p now) \<longleftrightarrow> True"
| "proper (OFinish i s now) \<longleftrightarrow> \<not> IsZero now"

definition within_limit :: "(string \<Rightarrow> int) \<Rightarrow> Runbook \<Rightarrow> bool" where
  "within_limit limit r \<longleftrightarrow> (\<forall>p. mgetd 0 (rb_active r) p \<le> max 0 (limit p))"

lemma run_step_next: "unat (rb_next (run_step limit op r)) \<le> Suc (unat (rb_next r))"
  by (cases op)
    (auto simp: runbook_Start_def runbook_Finish_def Let_def unat_word_ariths mod_le_divisor
      split: option.split intro: le_SucI mod_less_eq_dividend)

lemma within_limit_step:
  assumes "runbook_ok r" and "unat (rb_next r) < 2 ^ 63 - 1" and "within_limit limit r"
  shows "within_limit limit (run_step limit op r)"
proof -
  have "in_int64 (mgetd 0 (rb_active r) p + 1)" "in_int64 (mgetd 0 (rb_active r) p - 1)"
    and "0 \<le> mgetd 0 (rb_active r) p" for p
    using unfinished_le [of p r] assms(1,2)
    by (simp_all add: runbook_ok_def in_int64_def minInt64_def maxInt64_def)
  moreover have "mgetd 0 (rb_active r) p - 1 \<le> max 0 (limit p)" for p
  proof -
    have "mgetd 0 (rb_active r) p \<le> max 0 (limit p)" using assms(3) unfolding within_limit_def by blast
    then show ?thesis by linarith
  qed
  ultimately show ?thesis using assms(3)
    by (cases op)
      (auto simp: within_limit_def runbook_Start_def runbook_Finish_def Let_def wrap64_id not_le
        split: option.split intro: order_trans)
qed

lemma runbook_run:
  "\<lbrakk> runbook_ok r; within_limit limit r; unat (rb_next r) + length ops < 2 ^ 63; \<forall>op \<in> set ops. proper op \<rbrakk>
    \<Longrightarrow> runbook_ok (fold (run_step limit) ops r) \<and> within_limit limit (fold (run_step limit) ops r)"
proof (induction ops arbitrary: r)
  case (Cons op ops)
  have "runbook_ok (run_step limit op r)"
    using Cons.prems by (cases op) (simp_all add: runbook_ok_Start runbook_ok_Finish)
  moreover have "within_limit limit (run_step limit op r)"
    using Cons.prems by (intro within_limit_step) simp_all
  moreover have "unat (rb_next (run_step limit op r)) + length ops < 2 ^ 63"
    using run_step_next [of limit op r] Cons.prems(3) by simp
  ultimately show ?case using Cons by simp
qed simp

section \<open>One execution\<close>

text \<open>A run that is started and then finished leaves every active count as it was.\<close>

lemma start_then_finish:
  assumes ok: "runbook_ok r" and small: "unat (rb_next r) < 2 ^ 63 - 1" and real: "\<not> IsZero fin"
    and lim: "mgetd 0 (rb_active r) policy < limit policy"
    and n: "n = rb_next r + 1"
    and r': "r' = fst (runbook_Finish (runName n) b fin (fst (runbook_Start limit policy now r)))"
    and run: "run = \<lparr>ru_ID = runName n, ru_PolicyID = policy, ru_Generation = n, ru_SnapshotID = [],
      ru_StartedAt = tUTC now, ru_FinishedAt = tUTC fin, ru_Succeeded = b\<rparr>"
  shows "rb_next r' = n" and "runbook_Active q r' = runbook_Active q r"
    and "mget (rb_runs r') k = (if k = runName n then Some run else mget (rb_runs r) k)"
    and "runbook_Last q r' = (if q = policy then Some run else runbook_Last q r)"
proof -
  have act: "mgetd 0 (rb_active r) policy = int (unfinished policy r)" using ok by (simp add: runbook_ok_def)
  have "unfinished policy r < 2 ^ 63 - 1"
    using unfinished_le [of policy r] ok small by (simp add: runbook_ok_def)
  then have w: "wrap64 (mgetd 0 (rb_active r) policy + 1) = mgetd 0 (rb_active r) policy + 1"
    "wrap64 (mgetd 0 (rb_active r) policy) = mgetd 0 (rb_active r) policy"
    "\<not> mgetd 0 (rb_active r) policy < 0"
    unfolding act by (simp_all add: wrap64_id in_int64_def minInt64_def maxInt64_def)
  have l: "\<not> limit policy \<le> mgetd 0 (rb_active r) policy" using lim by simp
  show "rb_next r' = n" and "runbook_Active q r' = runbook_Active q r"
    and "mget (rb_runs r') k = (if k = runName n then Some run else mget (rb_runs r) k)"
    and "runbook_Last q r' = (if q = policy then Some run else runbook_Last q r)"
    using w l unfolding r' run n
    by (simp_all add: runbook_Start_def runbook_Finish_def runbook_Active_def runbook_Last_def Let_def gomap_simps)
qed

text \<open>\<open>Execute\<close> once it is past its guards.\<close>

definition runEntry :: "oPolicy \<Rightarrow> string \<Rightarrow> u64 \<Rightarrow> time \<Rightarrow> Entry" where
  "runEntry p snapshotID n started =
     \<lparr>j_Sequence = 0, j_Generation = n, j_Kind = ''orchestration-run'', j_SnapshotID = snapshotID,
      j_Operation = runName n, j_Detail = po_ID p, j_RecordedAt = started\<rparr>"

lemma execute_allowed:
  assumes "policy_Allows tz (tUTC (ck 0)) p"
    and "mgetd 0 (rb_active (co_runbook c)) (po_ID p) < limit (po_ID p)"
    and "n = rb_next (co_runbook c) + 1"
    and "shut \<longleftrightarrow> (\<exists>l. co_journal c = Some l \<and> log_closed l)"
  shows "controller_Execute tz ck limit p sn c =
    (execute_deferred ck (po_ID p) (runName n) (\<not> shut)
       (c\<lparr>co_runbook := fst (runbook_Start limit (po_ID p) (tUTC (ck 1)) (co_runbook c)),
          co_journal := map_option (\<lambda>l. fst (journal_Append (runEntry p sn n (tUTC (ck 1))) l)) (co_journal c),
          co_audit := (if shut then co_audit c else map_option
            (\<lambda>a. fst (audit_Record ''orchestration-run'' sn (runName n) (tUTC (ck 1)) a)) (co_audit c))\<rparr>),
     if shut then Some ErrJournalClosed else None)"
proof -
  have "po_Enabled p" using assms(1) by (simp add: policy_Allows_def split: if_splits)
  moreover have "\<not> limit (po_ID p) \<le> mgetd 0 (rb_active (co_runbook c)) (po_ID p)" using assms(2) by simp
  ultimately show ?thesis
    using assms
    by (cases c; cases "co_journal c")
      (simp_all add: controller_Execute_def runbook_Start_def Let_def journal_Append_def runEntry_def)
qed

text \<open>Its effects, part by part.\<close>

lemma execute_effects:
  assumes allow: "policy_Allows tz (tUTC (ck 0)) p"
    and lim: "mgetd 0 (rb_active (co_runbook c)) (po_ID p) < limit (po_ID p)"
    and n: "n = rb_next (co_runbook c) + 1" and shut: "shut \<longleftrightarrow> (\<exists>l. co_journal c = Some l \<and> log_closed l)"
    and real: "\<not> IsZero (ck 2)" and ex: "controller_Execute tz ck limit p sn c = (c', err)"
  shows "err = (if shut then Some ErrJournalClosed else None)"
    and "co_runbook c' = fst (runbook_Finish (runName n) (\<not> shut) (tUTC (ck 2))
      (fst (runbook_Start limit (po_ID p) (tUTC (ck 1)) (co_runbook c))))"
    and "co_journal c' = map_option (\<lambda>l. if log_closed l then l else l\<lparr>log_next := log_next l + 1,
      log_entries := log_entries l @ [\<lparr>j_Sequence = log_next l, j_Generation = n,
        j_Kind = ''orchestration-run'', j_SnapshotID = sn, j_Operation = runName n, j_Detail = po_ID p,
        j_RecordedAt = tUTC (ck 1)\<rparr>]\<rparr>) (co_journal c)"
    and "co_audit c' = (if shut then co_audit c else map_option
      (\<lambda>a. fst (audit_Record ''orchestration-run'' sn (runName n) (tUTC (ck 1)) a)) (co_audit c))"
    and "ow_length (co_window c') = ow_length (co_window c)"
    and "ow_items (co_window c') = dropWhile (\<lambda>i. oo_At i < tAdd (ck 4) (- ow_length (co_window c)))
      (ow_items (co_window c) @ [\<lparr>oo_PolicyID = po_ID p, oo_Succeeded = (\<not> shut), oo_At = tUTC (ck 2)\<rparr>])"
proof -
  note c' = execute_allowed [where ck = ck and limit = limit and sn = sn and n = n and shut = shut,
      OF allow lim n shut, unfolded ex prod.inject execute_deferred_def Let_def, THEN conjunct1]
  show "err = (if shut then Some ErrJournalClosed else None)"
    using execute_allowed [where ck = ck and limit = limit and sn = sn and n = n and shut = shut, OF allow lim n shut]
    by (simp add: ex)
  show "co_runbook c' = fst (runbook_Finish (runName n) (\<not> shut) (tUTC (ck 2))
      (fst (runbook_Start limit (po_ID p) (tUTC (ck 1)) (co_runbook c))))"
    and "co_audit c' = (if shut then co_audit c else map_option
      (\<lambda>a. fst (audit_Record ''orchestration-run'' sn (runName n) (tUTC (ck 1)) a)) (co_audit c))"
    by (simp_all add: c')
  show "co_journal c' = map_option (\<lambda>l. if log_closed l then l else l\<lparr>log_next := log_next l + 1,
      log_entries := log_entries l @ [\<lparr>j_Sequence = log_next l, j_Generation = n,
        j_Kind = ''orchestration-run'', j_SnapshotID = sn, j_Operation = runName n, j_Detail = po_ID p,
        j_RecordedAt = tUTC (ck 1)\<rparr>]\<rparr>) (co_journal c)"
    by (cases "co_journal c") (simp_all add: c' journal_Append_def runEntry_def Let_def)
  show "ow_length (co_window c') = ow_length (co_window c)"
    and "ow_items (co_window c') = dropWhile (\<lambda>i. oo_At i < tAdd (ck 4) (- ow_length (co_window c)))
      (ow_items (co_window c) @ [\<lparr>oo_PolicyID = po_ID p, oo_Succeeded = (\<not> shut), oo_At = tUTC (ck 2)\<rparr>])"
    using real by (simp_all add: c' orchestrator_WindowAdd_def Let_def owindow.len_prune owindow.prune_dropWhile
        owindow.horizon_def)
qed

section \<open>Properties\<close>

text \<open>
  C21: over any sequence of fewer than \<open>2^63\<close> starts and finishes (with a real time), the active
  count of a policy is the number of its runs that are not finished, and never exceeds the
  policy's limit; every run is stored under its own id, and the total is the number of runs
  started.
\<close>

theorem runbook_counts_active:
  assumes "length ops < 2 ^ 63" and "\<forall>op \<in> set ops. proper op"
  shows "let r = fold (run_step limit) ops runbook_New in
      (\<forall>p. runbook_Active p r = int (length (filter (\<lambda>run. IsZero (ru_FinishedAt run))
          (runbook_Runs (entries (rb_runs r)) p))))
    \<and> (\<forall>p. runbook_Active p r \<le> max 0 (limit p))
    \<and> (\<forall>i run. mget (rb_runs r) i = Some run \<longrightarrow> ru_ID run = i \<and> i = runName (ru_Generation run))
    \<and> runbook_Total r = unat (rb_next r)"
proof -
  let ?r = "fold (run_step limit) ops runbook_New"
  have "within_limit limit runbook_New" "unat (rb_next runbook_New) + length ops < 2 ^ 63"
    using assms(1) by (simp_all add: within_limit_def runbook_New_def)
  from runbook_run [OF runbook_ok_New this assms(2)]
  have ok: "runbook_ok ?r" and lim: "within_limit limit ?r" by simp_all
  have "int (unfinished p ?r) = int (length (filter (\<lambda>run. IsZero (ru_FinishedAt run))
      (runbook_Runs (entries (rb_runs ?r)) p)))" for p
    by (simp add: unfinished_def count_vals_def runbook_Runs_def conj_commute)
  with ok lim show ?thesis
    by (auto simp: Let_def runbook_ok_def within_limit_def runbook_Active_def runbook_Total_def)
qed

lemma runbook_counts_witness:
  "let r = fold (run_step (\<lambda>_. 1)) [OStart ''p'' zeroTime, OStart ''p'' zeroTime] runbook_New
   in runbook_Active ''p'' r = 1 \<and> runbook_Active ''p'' r \<le> 1"
proof -
  let ?ops = "[OStart ''p'' zeroTime, OStart ''p'' zeroTime]"
  have "length ?ops < 2 ^ 63" "\<forall>op \<in> set ?ops. proper op" by simp_all
  from runbook_counts_active [OF this, of "\<lambda>_. 1"]
  have "runbook_Active ''p'' (fold (run_step (\<lambda>_. 1)) ?ops runbook_New) \<le> max 0 1"
    unfolding Let_def by blast
  then show ?thesis
    by (simp add: runbook_Start_def runbook_New_def runbook_Active_def Let_def wrap64_def)
qed

text \<open>
  C20: \<open>Execute\<close> on every branch. A disabled policy, a moment outside its window (in UTC) and a
  policy at its limit are refused, and nothing changes. Otherwise one run is started and, whatever
  happens, finished before the call returns: it is stored under the next number, with the times of
  its start and end, as the last run of its policy; all other runs and the number of active runs of
  every policy are as before. If the journal is closed the run failed, its error is returned, and
  journal and ledger are as before. If not, the run succeeded: the journal, where there is one, has
  one more entry, and the audit ledger, where there is one, has one more event, both of this run.
  Either way the outcome is added to the window, whose oldest outcomes are dropped where they are
  beyond its length.
\<close>

theorem controller_execute_spec:
  assumes ok: "runbook_ok (co_runbook c)" and small: "unat (rb_next (co_runbook c)) < 2 ^ 63 - 1"
    and real: "\<not> IsZero (ck 2)" and ex: "controller_Execute tz ck limit p sn c = (c', err)"
  shows "(\<not> po_Enabled p \<longrightarrow> c' = c \<and> err = Some ErrDisabled)
    \<and> (po_Enabled p \<and> \<not> policy_Allows tz (tUTC (ck 0)) p \<longrightarrow> c' = c \<and> err = Some ErrOutsideWindow)
    \<and> (policy_Allows tz (tUTC (ck 0)) p \<and> limit (po_ID p) \<le> runbook_Active (po_ID p) (co_runbook c) \<longrightarrow>
        c' = c \<and> err = Some ErrConcurrency)
    \<and> (policy_Allows tz (tUTC (ck 0)) p \<and> runbook_Active (po_ID p) (co_runbook c) < limit (po_ID p) \<longrightarrow>
        (let n = rb_next (co_runbook c) + 1; shut = (\<exists>l. co_journal c = Some l \<and> log_closed l);
             run = \<lparr>ru_ID = runName n, ru_PolicyID = po_ID p, ru_Generation = n, ru_SnapshotID = [],
               ru_StartedAt = tUTC (ck 1), ru_FinishedAt = tUTC (ck 2), ru_Succeeded = (\<not> shut)\<rparr>
         in err = (if shut then Some ErrJournalClosed else None)
        \<and> (\<forall>q. runbook_Active q (co_runbook c') = runbook_Active q (co_runbook c))
        \<and> rb_next (co_runbook c') = n
        \<and> (\<forall>k. mget (rb_runs (co_runbook c')) k =
             (if k = runName n then Some run else mget (rb_runs (co_runbook c)) k))
        \<and> (\<forall>q. runbook_Last q (co_runbook c') =
             (if q = po_ID p then Some run else runbook_Last q (co_runbook c)))
        \<and> co_journal c' = map_option (\<lambda>l. if log_closed l then l else l\<lparr>log_next := log_next l + 1,
             log_entries := log_entries l @ [\<lparr>j_Sequence = log_next l, j_Generation = n,
               j_Kind = ''orchestration-run'', j_SnapshotID = sn, j_Operation = runName n, j_Detail = po_ID p,
               j_RecordedAt = tUTC (ck 1)\<rparr>]\<rparr>) (co_journal c)
        \<and> (shut \<or> co_audit c = None \<longrightarrow> co_audit c' = co_audit c)
        \<and> (\<forall>a. co_audit c = Some a \<and> \<not> shut \<longrightarrow> (\<exists>a' ev. co_audit c' = Some a'
             \<and> (a', ev) = audit_Record ''orchestration-run'' sn (runName n) (tUTC (ck 1)) a
             \<and> audit_Events a' = audit_Events a @ [ev] \<and> a_Sequence ev = led_next a
             \<and> a_Kind ev = ''orchestration-run'' \<and> a_ObjectID ev = sn \<and> a_Detail ev = runName n
             \<and> a_Recorded ev = tUTC (ck 1)))
        \<and> ow_length (co_window c') = ow_length (co_window c)
        \<and> ow_items (co_window c') = dropWhile (\<lambda>i. oo_At i < tAdd (ck 4) (- ow_length (co_window c)))
             (ow_items (co_window c) @
               [\<lparr>oo_PolicyID = po_ID p, oo_Succeeded = (\<not> shut), oo_At = tUTC (ck 2)\<rparr>])))"
proof (cases "policy_Allows tz (tUTC (ck 0)) p \<and> runbook_Active (po_ID p) (co_runbook c) < limit (po_ID p)")
  case False
  then show ?thesis
    using ex by (auto simp: controller_Execute_def runbook_Start_def runbook_Active_def Let_def
        policy_Allows_def not_less split: if_splits)
next
  case True
  then have allow: "policy_Allows tz (tUTC (ck 0)) p" "po_Enabled p"
    and lim: "mgetd 0 (rb_active (co_runbook c)) (po_ID p) < limit (po_ID p)"
    by (auto simp: policy_Allows_def runbook_Active_def split: if_splits)
  define n where "n = rb_next (co_runbook c) + 1"
  define shut where "shut \<longleftrightarrow> (\<exists>l. co_journal c = Some l \<and> log_closed l)"
  note eff = execute_effects [where ck = ck and limit = limit, OF allow(1) lim n_def shut_def real ex]
  have z: "\<not> IsZero (tUTC (ck 2))" using real by simp
  note book = start_then_finish [where limit = limit and policy = "po_ID p",
      OF ok small z lim n_def eff(2) refl, unfolded tUTC_idem]
  have ledger: "\<exists>a' ev. co_audit c' = Some a'
      \<and> (a', ev) = audit_Record ''orchestration-run'' sn (runName n) (tUTC (ck 1)) a
      \<and> audit_Events a' = audit_Events a @ [ev] \<and> a_Sequence ev = led_next a \<and> a_Kind ev = ''orchestration-run''
      \<and> a_ObjectID ev = sn \<and> a_Detail ev = runName n \<and> a_Recorded ev = tUTC (ck 1)"
    if "co_audit c = Some a \<and> \<not> shut" for a
    using that unfolding eff(4) by (simp add: audit_Record_def Let_def audit_Events_def)
  have same: "shut \<or> co_audit c = None \<longrightarrow> co_audit c' = co_audit c" unfolding eff(4) by auto
  have past: "\<not> limit (po_ID p) \<le> runbook_Active (po_ID p) (co_runbook c)" using True by simp
  show ?thesis
    unfolding Let_def n_def [symmetric] shut_def [symmetric]
    using eff(1,3,5,6) book ledger same allow past by simp
qed

definition daily :: oPolicy where
  "daily = \<lparr>po_ID = ''daily'', po_Interval = Hour, po_Enabled = True, po_AllowedStart = 0,
     po_AllowedEnd = 8 * Hour, po_MaxConcurrent = 1\<rparr>"

lemma daily_allows: "policy_Allows (\<lambda>_ _. 0) (tUTC (Time 5 UTC)) daily"
  by (simp add: policy_Allows_def daily_def Let_def time_of_day)

lemma controller_execute_witness:
  "let c = controller_New runbook_New (Some journal_New) (Some audit_New);
       (c', err) = controller_Execute (\<lambda>_ _. 0) (\<lambda>_. Time 5 UTC) (\<lambda>_. 1) daily ''s'' c
   in err = None \<and> runbook_Active ''daily'' (co_runbook c') = 0
    \<and> (\<exists>a ev. co_audit c' = Some a \<and> audit_Events a = [ev] \<and> a_Detail ev = runName 1)"
proof -
  let ?c = "controller_New runbook_New (Some journal_New) (Some audit_New)"
  obtain c' err where x: "controller_Execute (\<lambda>_ _. 0) (\<lambda>_. Time 5 UTC) (\<lambda>_. 1) daily ''s'' ?c = (c', err)"
    by fastforce
  have ok: "runbook_ok (co_runbook ?c)" and n: "unat (rb_next (co_runbook ?c)) < 2 ^ 63 - 1"
    and z: "\<not> IsZero (Time 5 UTC)"
    by (simp_all add: controller_New_def runbook_ok_New) (simp_all add: runbook_New_def IsZero_def)
  have "runbook_Active (po_ID daily) (co_runbook ?c) < 1" "runbook_Active ''daily'' (co_runbook ?c) = 0"
    by (simp_all add: controller_New_def runbook_New_def runbook_Active_def)
  with controller_execute_spec [where ck = "\<lambda>_. Time 5 UTC", OF ok n z x] daily_allows show ?thesis
    unfolding x Let_def prod.case
    by (simp add: controller_New_def runbook_New_def journal_New_def audit_New_def audit_Events_def) blast
qed

text \<open>
  C32: \<open>Next\<close> decided completely. The earliest time is the later of \<open>now\<close> and the interval after the
  last finished run (after \<open>now\<close> where there is none), in the zone of whichever it is. It is returned
  exactly for an enabled, valid policy in whose window its time of day lies. A disabled policy is
  refused as such; an enabled, invalid one with the error of its validation, which finds an empty id,
  an interval or a limit that is not positive, and a window that is empty or not within a day; and an
  enabled, valid one as outside its window exactly if the earliest time is outside.
\<close>

theorem scheduler_next_spec:
  "let base = (case lst of Some run \<Rightarrow> if IsZero (ru_FinishedAt run) then now else ru_FinishedAt run
               | None \<Rightarrow> now);
       valid = (po_ID p \<noteq> [] \<and> 0 < po_Interval p \<and> 1 \<le> po_MaxConcurrent p \<and> 0 \<le> po_AllowedStart p
         \<and> po_AllowedStart p < po_AllowedEnd p \<and> po_AllowedEnd p \<le> 24 * Hour);
       earliest = Time (max (instant now) (instant base + po_Interval p))
         (if instant base + po_Interval p < instant now then loc now else loc base);
       day = wall tz earliest mod (24 * Hour);
       inside = (po_AllowedStart p \<le> day \<and> day < po_AllowedEnd p)
   in (orchestrator_Validate p = None \<longleftrightarrow> valid)
    \<and> (\<forall>t. scheduler_Next tz p lst now = Inr t \<longleftrightarrow> po_Enabled p \<and> valid \<and> inside \<and> t = earliest)
    \<and> (\<forall>e. scheduler_Next tz p lst now = Inl e \<longleftrightarrow>
         \<not> po_Enabled p \<and> e = ErrDisabled
       \<or> po_Enabled p \<and> orchestrator_Validate p = Some e
       \<or> po_Enabled p \<and> valid \<and> \<not> inside \<and> e = ErrOutsideWindow)"
proof -
  define base where "base = (case lst of Some run \<Rightarrow> if IsZero (ru_FinishedAt run) then now else ru_FinishedAt run
    | None \<Rightarrow> now)"
  have base': "(case lst of None \<Rightarrow> now
      | Some run \<Rightarrow> if \<not> IsZero (ru_FinishedAt run) then ru_FinishedAt run else now) = base"
    by (simp add: base_def split: option.split)
  have candidate: "(if tAdd base (po_Interval p) < now then now else tAdd base (po_Interval p)) =
      Time (max (instant now) (instant base + po_Interval p))
        (if instant base + po_Interval p < instant now then loc now else loc base)"
    by (auto simp: tAdd_def max_def)
  have valid: "orchestrator_Validate p = None \<longleftrightarrow> po_ID p \<noteq> [] \<and> 0 < po_Interval p \<and> 1 \<le> po_MaxConcurrent p
      \<and> 0 \<le> po_AllowedStart p \<and> po_AllowedStart p < po_AllowedEnd p \<and> po_AllowedEnd p \<le> 24 * Hour"
    by (auto simp: orchestrator_Validate_def)
  show ?thesis
    unfolding base_def [symmetric] Let_def valid [symmetric] scheduler_Next_def base' candidate
    by (auto simp: policy_Allows_def Let_def time_of_day split: option.splits)
qed

lemma scheduler_next_witness:
  "scheduler_Next (\<lambda>_ _. 0) daily None (Time 5 UTC) = Inr (Time (5 + Hour) UTC)
   \<and> scheduler_Next (\<lambda>_ _. 0) daily None (Time (7 * Hour) UTC) = Inl ErrOutsideWindow
   \<and> scheduler_Next (\<lambda>_ _. 0) (daily\<lparr>po_Enabled := False\<rparr>) None (Time 5 UTC) = Inl ErrDisabled"
  using scheduler_next_spec [where lst = None and now = "Time 5 UTC" and p = daily and tz = "\<lambda>_ _. 0"]
    scheduler_next_spec [where lst = None and now = "Time (7 * Hour) UTC" and p = daily and tz = "\<lambda>_ _. 0"]
    scheduler_next_spec [where lst = None and now = "Time 5 UTC" and p = "daily\<lparr>po_Enabled := False\<rparr>"
      and tz = "\<lambda>_ _. 0"]
  by (simp add: Let_def daily_def wall_def zoneOffset_def)

text \<open>
  \<open>Elapsed\<close> does not measure anything: it subtracts from \<open>now\<close> a time that it computes from
  \<open>now\<close> itself, so whenever it returns without an error the result is minus the interval.
\<close>

theorem scheduler_elapsed_is_minus_interval:
  assumes "in_int64 (po_Interval p)" and "scheduler_Elapsed tz p now = Inr d"
  shows "d = - po_Interval p \<and> d < 0"
  using assms
  by (auto simp: scheduler_Elapsed_def policy_NextAfter_def tSub_def orchestrator_Validate_def in_int64_def
      minInt64_def maxInt64_def split: option.splits if_splits)

lemma scheduler_elapsed_witness:
  "scheduler_Elapsed (\<lambda>_ _. 0) daily (Time 5 UTC) = Inr (- Hour)"
proof -
  have i: "in_int64 (po_Interval daily)" by (simp add: daily_def in_int64_def minInt64_def maxInt64_def)
  have "\<exists>d. scheduler_Elapsed (\<lambda>_ _. 0) daily (Time 5 UTC) = Inr d"
    by (simp add: scheduler_Elapsed_def daily_def orchestrator_Validate_def policy_Allows_def Let_def time_of_day)
  then obtain d where "scheduler_Elapsed (\<lambda>_ _. 0) daily (Time 5 UTC) = Inr d" by blast
  with scheduler_elapsed_is_minus_interval [OF i this] show ?thesis by (simp add: daily_def)
qed

text \<open>
  The schedule and the execution disagree on the zone. \<open>Next\<close> looks at the wall clock of the
  zone of the time it is given, \<open>Execute\<close> at UTC: for a clock in UTC a scheduled time is always
  one that \<open>Execute\<close> allows, but in a zone two hours ahead \<open>Next\<close> schedules, for a window
  from midnight to eight, a time at which \<open>Execute\<close> refuses to run.
\<close>

theorem scheduler_zone_mismatch:
  "(scheduler_Next tz p None now = Inr t \<and> loc now = UTC \<longrightarrow> policy_Allows tz (tUTC t) p)
   \<and> (let tz2 = (\<lambda>_ _. 2 * 3600); nw = Time (22 * Hour - Hour) (Zone ''east'') in
      (\<exists>t. scheduler_Next tz2 daily None nw = Inr t
        \<and> (\<forall>ck limit sn c. ck 0 = t \<longrightarrow> controller_Execute tz2 ck limit daily sn c = (c, Some ErrOutsideWindow))))"
proof
  show "scheduler_Next tz p None now = Inr t \<and> loc now = UTC \<longrightarrow> policy_Allows tz (tUTC t) p"
    by (auto simp: scheduler_Next_def policy_Allows_def Let_def time_of_day
        split: option.splits if_splits)
  show "let tz2 = (\<lambda>_ _. 2 * 3600); nw = Time (22 * Hour - Hour) (Zone ''east'') in
      (\<exists>t. scheduler_Next tz2 daily None nw = Inr t
        \<and> (\<forall>ck limit sn c. ck 0 = t \<longrightarrow> controller_Execute tz2 ck limit daily sn c = (c, Some ErrOutsideWindow)))"
    by (simp add: Let_def scheduler_Next_def daily_def orchestrator_Validate_def policy_Allows_def time_of_day
        controller_Execute_def tAdd_def tUTC_def wall_def zoneOffset_def)
qed

lemma scheduler_zone_mismatch_witness:
  "policy_Allows (\<lambda>_ _. 7200) (tUTC (Time (5 + Hour) UTC)) daily"
proof -
  have "scheduler_Next (\<lambda>_ _. 7200) daily None (Time 5 UTC) = Inr (Time (5 + Hour) UTC)"
    by (simp add: scheduler_Next_def daily_def orchestrator_Validate_def policy_Allows_def Let_def time_of_day
        tAdd_def)
  then show ?thesis
    using scheduler_zone_mismatch [of "\<lambda>_ _. 7200" daily "Time 5 UTC" "Time (5 + Hour) UTC"] by simp
qed

end
