(* ===== verification/MirrorLedger.thy ===== *)
theory MirrorLedger
  imports Model Contracts
begin

text \<open>
  Package \<open>mirror\<close> (\<open>internal/mirror/ledger.go\<close>, \<open>sync.go\<close>): the sites that may deliver
  updates and the newest generation applied per site and snapshot, stored under the text
  \<open>site|snapshotID\<close>. \<open>Apply\<close> takes the lock three times, to look up the site, to look up the
  record and to write, and other calls can run in between. \<open>mirror_Apply\<close> is a call that is not
  interrupted; \<open>world_step\<close> runs any number of calls in any interleaving of their three parts.
\<close>

record SiteRecord =
  sr_Site :: string
  sr_SnapshotID :: string
  sr_Generation :: u64
  sr_State :: SnapshotState
  sr_AppliedAt :: time

record MirrorLedger =
  mir_sites :: "(string, unit) gomap"
  mir_records :: "(string, SiteRecord) gomap"

definition mirror_New :: MirrorLedger where
  "mirror_New = \<lparr>mir_sites = mempty, mir_records = mempty\<rparr>"

definition mirror_Register :: "string \<Rightarrow> MirrorLedger \<Rightarrow> MirrorLedger \<times> bool" where
  "mirror_Register site l =
     (if mget (mir_sites l) site \<noteq> None then (l, False)
      else (l\<lparr>mir_sites := mput (mir_sites l) site ()\<rparr>, True))"

definition mirror_SiteRegistered :: "string \<Rightarrow> MirrorLedger \<Rightarrow> bool" where
  "mirror_SiteRegistered site l \<longleftrightarrow> mget (mir_sites l) site \<noteq> None"

definition mirror_Sites :: "MirrorLedger \<Rightarrow> string list" where
  "mirror_Sites l = sort (mkeys (mir_sites l))"

definition mirror_key :: "string \<Rightarrow> string \<Rightarrow> string" where
  "mirror_key site snapshotID = site @ ''|'' @ snapshotID"

definition mirror_RecordFor :: "string \<Rightarrow> string \<Rightarrow> MirrorLedger \<Rightarrow> SiteRecord option" where
  "mirror_RecordFor site snapshotID l = mget (mir_records l) (mirror_key site snapshotID)"

definition record_before :: "SiteRecord \<Rightarrow> SiteRecord \<Rightarrow> bool" where
  "record_before a b =
     (if sr_Site a \<noteq> sr_Site b then sr_Site a < sr_Site b else sr_SnapshotID a < sr_SnapshotID b)"

definition mirror_Snapshot :: "MirrorLedger \<Rightarrow> SiteRecord list" where
  "mirror_Snapshot l = sort_by record_before (mvals (mir_records l))"

text \<open>The comparisons after the lookup of the record, and the whole check.\<close>

definition mirror_apply_compare ::
  "string \<Rightarrow> Snapshot \<Rightarrow> Snapshot option \<Rightarrow> MirrorLedger \<Rightarrow> error option" where
  "mirror_apply_compare site remote local l =
     (if (case mirror_RecordFor site (s_ID remote) l of
            Some record \<Rightarrow> s_Generation remote < sr_Generation record | None \<Rightarrow> False)
        then Some ErrStaleRemoteGeneration
      else if (case local of Some lo \<Rightarrow> s_Generation lo > s_Generation remote | None \<Rightarrow> False)
        then Some ErrStaleRemoteGeneration
      else None)"

definition mirror_apply_check ::
  "string \<Rightarrow> Snapshot \<Rightarrow> Snapshot option \<Rightarrow> MirrorLedger \<Rightarrow> error option" where
  "mirror_apply_check site remote local l =
     (if \<not> mirror_SiteRegistered site l then Some ErrUnknownSite
      else mirror_apply_compare site remote local l)"

definition mirror_apply_commit :: "string \<Rightarrow> Snapshot \<Rightarrow> time \<Rightarrow> MirrorLedger \<Rightarrow> MirrorLedger" where
  "mirror_apply_commit site remote now l =
     l\<lparr>mir_records := mput (mir_records l) (mirror_key site (s_ID remote))
        \<lparr>sr_Site = site, sr_SnapshotID = s_ID remote, sr_Generation = s_Generation remote,
         sr_State = s_State remote, sr_AppliedAt = tUTC now\<rparr>\<rparr>"

text \<open>A call that nothing interrupts. The pair \<open>local, localExists\<close> is an option.\<close>

definition mirror_Apply ::
  "string \<Rightarrow> Snapshot \<Rightarrow> Snapshot option \<Rightarrow> time \<Rightarrow> MirrorLedger \<Rightarrow> MirrorLedger \<times> error option" where
  "mirror_Apply site remote local now l =
     (case mirror_apply_check site remote local l of
        Some e \<Rightarrow> (l, Some e)
      | None \<Rightarrow> (mirror_apply_commit site remote now l, None))"

lemmas mirror_defs [step_defs] =
  mirror_New_def mirror_Register_def mirror_SiteRegistered_def mirror_RecordFor_def
  mirror_apply_compare_def mirror_apply_check_def mirror_apply_commit_def mirror_Apply_def

datatype mirror_op = MRegister string | MApply string Snapshot "Snapshot option" time

fun mirror_step :: "mirror_op \<Rightarrow> MirrorLedger \<Rightarrow> MirrorLedger" where
  "mirror_step (MRegister site) l = fst (mirror_Register site l)"
| "mirror_step (MApply site remote local now) l = fst (mirror_Apply site remote local now l)"

section \<open>Interleaved calls\<close>

text \<open>
  A call of \<open>Apply\<close> in flight, with the place it has reached: before the lookup of the record, before
  the write, or returned. The lookup of the site is its first part.
\<close>

datatype apply_pc = AtRecordFor | AtWrite | Returned "error option"

record apply_call =
  ap_site :: string
  ap_remote :: Snapshot
  ap_local :: "Snapshot option"
  ap_now :: time
  ap_pc :: apply_pc

definition apply_enter ::
  "string \<Rightarrow> Snapshot \<Rightarrow> Snapshot option \<Rightarrow> time \<Rightarrow> MirrorLedger \<Rightarrow> apply_call" where
  "apply_enter site remote local now l =
     \<lparr>ap_site = site, ap_remote = remote, ap_local = local, ap_now = now,
      ap_pc = (if \<not> mirror_SiteRegistered site l then Returned (Some ErrUnknownSite) else AtRecordFor)\<rparr>"

definition apply_next :: "apply_call \<Rightarrow> MirrorLedger \<Rightarrow> MirrorLedger \<times> apply_call" where
  "apply_next c l =
     (case ap_pc c of
        AtRecordFor \<Rightarrow>
          (case mirror_apply_compare (ap_site c) (ap_remote c) (ap_local c) l of
             Some e \<Rightarrow> (l, c\<lparr>ap_pc := Returned (Some e)\<rparr>)
           | None \<Rightarrow> (l, c\<lparr>ap_pc := AtWrite\<rparr>))
      | AtWrite \<Rightarrow>
          (mirror_apply_commit (ap_site c) (ap_remote c) (ap_now c) l, c\<lparr>ap_pc := Returned None\<rparr>)
      | Returned e \<Rightarrow> (l, c))"

text \<open>
  The ledger and its calls, by number. A schedule is a list of events: a registration, the start of
  a call, the next part of a call.
\<close>

record mirror_world =
  mw_ledger :: MirrorLedger
  mw_calls :: "(nat, apply_call) gomap"

definition mirror_world_New :: mirror_world where
  "mirror_world_New = \<lparr>mw_ledger = mirror_New, mw_calls = mempty\<rparr>"

datatype mirror_event =
    SRegister string
  | SCall nat string Snapshot "Snapshot option" time
  | SRun nat

fun world_step :: "mirror_event \<Rightarrow> mirror_world \<Rightarrow> mirror_world" where
  "world_step (SRegister site) w = w\<lparr>mw_ledger := fst (mirror_Register site (mw_ledger w))\<rparr>"
| "world_step (SCall t site remote local now) w =
     (if mget (mw_calls w) t \<noteq> None then w
      else w\<lparr>mw_calls := mput (mw_calls w) t (apply_enter site remote local now (mw_ledger w))\<rparr>)"
| "world_step (SRun t) w =
     (case mget (mw_calls w) t of
        None \<Rightarrow> w
      | Some c \<Rightarrow> let (l, c') = apply_next c (mw_ledger w)
                  in w\<lparr>mw_ledger := l, mw_calls := mput (mw_calls w) t c'\<rparr>)"

section \<open>Invariant and fencing mark\<close>

definition mirror_ok :: "MirrorLedger \<Rightarrow> bool" where
  "mirror_ok l \<longleftrightarrow> (\<forall>k r. mget (mir_records l) k = Some r \<longrightarrow>
     k = mirror_key (sr_Site r) (sr_SnapshotID r) \<and> mirror_SiteRegistered (sr_Site r) l)"

definition applied_generation :: "MirrorLedger \<Rightarrow> string \<times> string \<Rightarrow> u64" where
  "applied_generation l k =
     (case mirror_RecordFor (fst k) (snd k) l of None \<Rightarrow> 0 | Some r \<Rightarrow> sr_Generation r)"

interpretation fence: monotone_store mirror_step applied_generation
  by unfold_locales
    (rename_tac l k op, case_tac op,
      auto simp: applied_generation_def mirror_defs mirror_key_def gomap_simps not_less split: option.splits)

text \<open>The comparisons in terms of the newest applied generation.\<close>

lemma mirror_apply_compare_iff:
  "mirror_apply_compare site remote local l =
     (if s_Generation remote < applied_generation l (site, s_ID remote)
         \<or> (\<exists>lo. local = Some lo \<and> s_Generation remote < s_Generation lo)
      then Some ErrStaleRemoteGeneration else None)"
  by (auto simp: mirror_apply_compare_def applied_generation_def split: option.splits)

text \<open>In every interleaving the records are kept under their own keys, for registered sites.\<close>

definition world_ok :: "mirror_world \<Rightarrow> bool" where
  "world_ok w \<longleftrightarrow> mirror_ok (mw_ledger w)
     \<and> (\<forall>t c. mget (mw_calls w) t = Some c \<and> ap_pc c \<in> {AtRecordFor, AtWrite} \<longrightarrow>
          mirror_SiteRegistered (ap_site c) (mw_ledger w))"

lemmas world_defs =
  apply_enter_def apply_next_def mirror_SiteRegistered_def mirror_Register_def mirror_apply_commit_def

interpretation world: invariant_machine mirror_world_New world_step world_ok
proof
  fix w ev assume "world_ok w"
  then show "world_ok (world_step ev w)"
    by (cases ev)
      (auto simp: world_ok_def mirror_ok_def world_defs gomap_simps Let_def
        split: if_splits option.splits apply_pc.splits)
qed (simp add: world_ok_def mirror_ok_def mirror_world_New_def mirror_New_def)

text \<open>
  The fence at generation \<open>g\<close> of one record, relative to an earlier moment \<open>w0\<close>: the record is at
  least that new, and no call with an older update can still write it or has written it since.
\<close>

definition call_key :: "apply_call \<Rightarrow> string" where
  "call_key c = mirror_key (ap_site c) (s_ID (ap_remote c))"

definition call_generation :: "apply_call \<Rightarrow> u64" where
  "call_generation c = s_Generation (ap_remote c)"

definition record_reaches :: "MirrorLedger \<Rightarrow> string \<Rightarrow> u64 \<Rightarrow> bool" where
  "record_reaches l k g \<longleftrightarrow> (\<exists>r. mget (mir_records l) k = Some r \<and> g \<le> sr_Generation r)"

definition refused_or_waiting :: "apply_pc set" where
  "refused_or_waiting = {AtRecordFor, Returned (Some ErrUnknownSite), Returned (Some ErrStaleRemoteGeneration)}"

definition fenced :: "string \<Rightarrow> u64 \<Rightarrow> mirror_world \<Rightarrow> mirror_world \<Rightarrow> bool" where
  "fenced k g w0 w \<longleftrightarrow> record_reaches (mw_ledger w) k g
     \<and> (\<forall>t c. mget (mw_calls w) t = Some c \<and> call_key c = k \<and> call_generation c < g \<longrightarrow>
          ap_pc c \<in> refused_or_waiting \<or> (ap_pc c \<noteq> AtWrite \<and> mget (mw_calls w0) t = Some c))"

lemma record_reaches_applied: "record_reaches l (mirror_key site i) g \<Longrightarrow> g \<le> applied_generation l (site, i)"
  by (auto simp: applied_generation_def record_reaches_def mirror_RecordFor_def)

lemma record_reaches_commit:
  "record_reaches (mirror_apply_commit site remote now l) k g \<longleftrightarrow>
     (if k = mirror_key site (s_ID remote) then g \<le> s_Generation remote else record_reaches l k g)"
  by (simp add: record_reaches_def mirror_apply_commit_def gomap_simps)

lemma record_reaches_Register [simp]: "record_reaches (fst (mirror_Register site l)) k g = record_reaches l k g"
  by (simp add: record_reaches_def mirror_Register_def)

lemma fenced_next:
  assumes "fenced k g w0 w" and c: "mget (mw_calls w) t = Some c" and "apply_next c (mw_ledger w) = (l, c')"
  shows "record_reaches l k g"
    and "call_key c' = k \<and> call_generation c' < g \<longrightarrow>
      ap_pc c' \<in> refused_or_waiting \<or> (ap_pc c' \<noteq> AtWrite \<and> mget (mw_calls w0) t = Some c')"
proof -
  have new: "record_reaches (mw_ledger w) k g"
    and old: "call_key c = k \<and> call_generation c < g \<longrightarrow>
      ap_pc c \<in> refused_or_waiting \<or> (ap_pc c \<noteq> AtWrite \<and> mget (mw_calls w0) t = Some c)"
    using assms(1) c unfolding fenced_def by blast+
  show "record_reaches l k g"
    using assms(3) new old
    by (auto simp: apply_next_def record_reaches_commit call_key_def call_generation_def refused_or_waiting_def
        not_less split: apply_pc.splits option.splits)
  show "call_key c' = k \<and> call_generation c' < g \<longrightarrow>
      ap_pc c' \<in> refused_or_waiting \<or> (ap_pc c' \<noteq> AtWrite \<and> mget (mw_calls w0) t = Some c')"
    using assms(3) new old
    by (auto simp: apply_next_def mirror_apply_compare_iff call_key_def call_generation_def
        refused_or_waiting_def split: apply_pc.splits option.splits if_splits dest!: record_reaches_applied dest: order.strict_trans2)
qed

interpretation fence_run: step_invariant world_step "fenced k g w0" for k g w0
proof
  fix w ev assume f: "fenced k g w0 w"
  show "fenced k g w0 (world_step ev w)"
  proof (cases ev)
    case (SRun t)
    show ?thesis
    proof (cases "mget (mw_calls w) t")
      case (Some c)
      obtain l c' where n: "apply_next c (mw_ledger w) = (l, c')" by fastforce
      from fenced_next [OF f Some n] f show ?thesis
        by (auto simp: SRun Some n fenced_def gomap_simps)
    qed (simp add: SRun f)
  qed (use f in \<open>auto simp: fenced_def gomap_simps apply_enter_def refused_or_waiting_def\<close>)
qed

text \<open>The write that sets up the fence.\<close>

lemma write_step:
  assumes "mget (mw_calls w) t = Some c" and "ap_pc c = AtWrite" and "w1 = world_step (SRun t) w"
  shows "mget (mw_calls w1) u = (if u = t then Some (c\<lparr>ap_pc := Returned None\<rparr>) else mget (mw_calls w) u)"
    and "mw_ledger w1 = mirror_apply_commit (ap_site c) (ap_remote c) (ap_now c) (mw_ledger w)"
  using assms by (simp_all add: apply_next_def gomap_simps)

lemma fenced_write:
  assumes "mget (mw_calls w) t = Some c" and "ap_pc c = AtWrite" and "w1 = world_step (SRun t) w"
    and "\<forall>u d. mget (mw_calls w) u = Some d \<and> ap_pc d = AtWrite \<and> call_key d = call_key c \<longrightarrow>
      call_generation c \<le> call_generation d"
  shows "fenced (call_key c) (call_generation c) w w1"
  unfolding fenced_def write_step [OF assms(1-3)] using assms(4)
  by (auto simp: record_reaches_commit call_key_def call_generation_def dest: leD)

text \<open>A call whose three parts follow each other directly is \<open>mirror_Apply\<close>.\<close>

lemma apply_uninterrupted:
  assumes "mget (mw_calls w) t = None"
    and "w' = fold world_step [SCall t site remote local now, SRun t, SRun t] w"
  shows "mw_ledger w' = fst (mirror_Apply site remote local now (mw_ledger w))"
    and "map_option ap_pc (mget (mw_calls w') t)
      = Some (Returned (snd (mirror_Apply site remote local now (mw_ledger w))))"
  using assms
  by (auto simp: mirror_Apply_def mirror_apply_check_def apply_enter_def apply_next_def gomap_simps Let_def
      split: option.splits)

text \<open>How such a call is decided, and what it writes.\<close>

lemma apply_decides:
  assumes "mget (mw_calls w) t = None"
    and "w' = fold world_step [SCall t site remote local now, SRun t, SRun t] w"
    and "result = (if \<not> mirror_SiteRegistered site (mw_ledger w) then Some ErrUnknownSite
      else if (\<exists>r. mirror_RecordFor site (s_ID remote) (mw_ledger w) = Some r \<and> s_Generation remote < sr_Generation r)
        \<or> (\<exists>lo. local = Some lo \<and> s_Generation remote < s_Generation lo)
      then Some ErrStaleRemoteGeneration else None)"
  shows "map_option ap_pc (mget (mw_calls w') t) = Some (Returned result)"
    and "mir_sites (mw_ledger w') = mir_sites (mw_ledger w)"
    and "mget (mir_records (mw_ledger w')) k =
      (if result = None \<and> k = mirror_key site (s_ID remote)
       then Some \<lparr>sr_Site = site, sr_SnapshotID = s_ID remote, sr_Generation = s_Generation remote,
         sr_State = s_State remote, sr_AppliedAt = tUTC now\<rparr>
       else mget (mir_records (mw_ledger w)) k)"
proof -
  have check: "mirror_apply_check site remote local (mw_ledger w) = result"
    unfolding assms(3) mirror_apply_check_def mirror_apply_compare_def by (auto split: option.splits)
  note run = apply_uninterrupted [OF assms(1,2)]
  show "map_option ap_pc (mget (mw_calls w') t) = Some (Returned result)"
    unfolding run(2) by (simp add: mirror_Apply_def check split: option.splits)
  show "mir_sites (mw_ledger w') = mir_sites (mw_ledger w)"
    unfolding run(1) by (simp add: mirror_Apply_def mirror_apply_commit_def split: option.splits)
  show "mget (mir_records (mw_ledger w')) k =
      (if result = None \<and> k = mirror_key site (s_ID remote)
       then Some \<lparr>sr_Site = site, sr_SnapshotID = s_ID remote, sr_Generation = s_Generation remote,
         sr_State = s_State remote, sr_AppliedAt = tUTC now\<rparr>
       else mget (mir_records (mw_ledger w)) k)"
    unfolding run(1)
    by (simp add: mirror_Apply_def mirror_apply_commit_def check gomap_simps split: option.splits)
qed

section \<open>The report\<close>

definition record_key :: "SiteRecord \<Rightarrow> string \<times> string" where
  "record_key r = (sr_Site r, sr_SnapshotID r)"

lemma record_before_key: "record_before a b \<longleftrightarrow> record_key a < record_key b"
  by (auto simp: record_before_def record_key_def less_prod_def)

lemma distinct_record_key: "mirror_ok l \<Longrightarrow> distinct (map record_key (mvals (mir_records l)))"
proof -
  assume "mirror_ok l"
  then have "distinct (map (\<lambda>r. mirror_key (sr_Site r) (sr_SnapshotID r)) (mvals (mir_records l)))"
    by (intro distinct_mvals) (auto simp: mirror_ok_def)
  then have "distinct (map (\<lambda>(s, i). mirror_key s i) (map record_key (mvals (mir_records l))))"
    by (simp add: record_key_def comp_def)
  then show ?thesis by (simp only: distinct_map)
qed

section \<open>Properties\<close>

text \<open>
  Where each call ends before the next begins, the fence needs no further condition: an update older
  than one that was applied for the same site and snapshot is refused, however many calls later.
\<close>

theorem mirror_fences_sequential:
  assumes "mirror_Apply site remote local now l = (l1, None)" and "s_ID remote' = s_ID remote"
    and "s_Generation remote' < s_Generation remote" and "l2 = fold mirror_step later l1"
  shows "mirror_Apply site remote' local' now' l2
    = (l2, Some (if mirror_SiteRegistered site l2 then ErrStaleRemoteGeneration else ErrUnknownSite))"
proof -
  have "record_reaches l1 (mirror_key site (s_ID remote)) (s_Generation remote)"
    using assms(1)
    by (auto simp: mirror_Apply_def record_reaches_commit split: option.splits)
  then have "s_Generation remote \<le> applied_generation l2 (site, s_ID remote)"
    unfolding assms(4) by (intro fence.run_keeps_bound record_reaches_applied)
  then have "s_Generation remote' < applied_generation l2 (site, s_ID remote')"
    using assms(2,3) by simp
  then show ?thesis by (simp add: mirror_Apply_def mirror_apply_check_def mirror_apply_compare_iff)
qed

text \<open>
  C35: the fence in every interleaving of calls. Let a call of \<open>Apply\<close> reach its write at a moment when
  no other call that already passed its comparison waits to write the same record with an older
  generation. It then returns without an error and its update is the record. In every later state,
  whatever registrations and parts of calls came in between, the record is at least of that
  generation, and a call with an older update of the same record that had not returned by then is
  still before its comparison or was refused, as stale or for an unknown site: it neither writes nor
  waits to write. A call whose three parts follow each other directly is decided by the state it
  finds: refused for a site that is not registered; else as stale if its generation is older than the
  record's or than the local snapshot's; else applied.
\<close>

theorem mirror_fences_stale_updates:
  assumes c: "mget (mw_calls w) t = Some c" and pc: "ap_pc c = AtWrite"
    and quiet: "\<forall>u d. mget (mw_calls w) u = Some d \<and> ap_pc d = AtWrite \<and> call_key d = call_key c \<longrightarrow>
      call_generation c \<le> call_generation d"
    and w1: "w1 = world_step (SRun t) w" and w2: "w2 = fold world_step later w1"
  shows "mget (mw_calls w1) t = Some (c\<lparr>ap_pc := Returned None\<rparr>)
    \<and> mirror_RecordFor (ap_site c) (s_ID (ap_remote c)) (mw_ledger w1) = Some
        \<lparr>sr_Site = ap_site c, sr_SnapshotID = s_ID (ap_remote c), sr_Generation = s_Generation (ap_remote c),
         sr_State = s_State (ap_remote c), sr_AppliedAt = tUTC (ap_now c)\<rparr>
    \<and> (\<exists>r. mirror_RecordFor (ap_site c) (s_ID (ap_remote c)) (mw_ledger w2) = Some r
        \<and> call_generation c \<le> sr_Generation r)
    \<and> (\<forall>u d. mget (mw_calls w2) u = Some d \<and> call_key d = call_key c \<and> call_generation d < call_generation c
        \<and> mget (mw_calls w) u \<noteq> Some d \<longrightarrow>
          ap_pc d \<in> {AtRecordFor, Returned (Some ErrUnknownSite), Returned (Some ErrStaleRemoteGeneration)})
    \<and> (\<forall>u d. mget (mw_calls w2) u = Some d \<and> call_key d = call_key c \<and> call_generation d < call_generation c
        \<longrightarrow> ap_pc d \<noteq> AtWrite)
    \<and> (\<forall>u site remote local now. mget (mw_calls w2) u = None \<longrightarrow>
        (let w3 = fold world_step [SCall u site remote local now, SRun u, SRun u] w2;
             result = (if \<not> mirror_SiteRegistered site (mw_ledger w2) then Some ErrUnknownSite
               else if (\<exists>r. mirror_RecordFor site (s_ID remote) (mw_ledger w2) = Some r
                        \<and> s_Generation remote < sr_Generation r)
                   \<or> (\<exists>lo. local = Some lo \<and> s_Generation remote < s_Generation lo)
               then Some ErrStaleRemoteGeneration else None)
         in map_option ap_pc (mget (mw_calls w3) u) = Some (Returned result)
          \<and> mir_sites (mw_ledger w3) = mir_sites (mw_ledger w2)
          \<and> (\<forall>k. mget (mir_records (mw_ledger w3)) k =
               (if result = None \<and> k = mirror_key site (s_ID remote)
                then Some \<lparr>sr_Site = site, sr_SnapshotID = s_ID remote, sr_Generation = s_Generation remote,
                  sr_State = s_State remote, sr_AppliedAt = tUTC now\<rparr>
                else mget (mir_records (mw_ledger w2)) k))))"
proof -
  note wr = write_step [OF c pc w1]
  have "fenced (call_key c) (call_generation c) w w1" by (rule fenced_write [OF c pc w1 quiet])
  then have f: "fenced (call_key c) (call_generation c) w w2"
    unfolding w2 by (rule fence_run.inv_run)
  then have rec: "\<exists>r. mirror_RecordFor (ap_site c) (s_ID (ap_remote c)) (mw_ledger w2) = Some r
        \<and> call_generation c \<le> sr_Generation r"
    by (simp add: fenced_def record_reaches_def call_key_def mirror_RecordFor_def)
  have old: "ap_pc d \<noteq> AtWrite
      \<and> (ap_pc d \<in> {AtRecordFor, Returned (Some ErrUnknownSite), Returned (Some ErrStaleRemoteGeneration)}
         \<or> mget (mw_calls w) u = Some d)"
    if "mget (mw_calls w2) u = Some d" "call_key d = call_key c" "call_generation d < call_generation c" for u d
    using f that unfolding fenced_def refused_or_waiting_def by fastforce
  show ?thesis
  proof (intro conjI allI impI)
    show "mget (mw_calls w1) t = Some (c\<lparr>ap_pc := Returned None\<rparr>)" by (simp add: wr)
    show "mirror_RecordFor (ap_site c) (s_ID (ap_remote c)) (mw_ledger w1) = Some
        \<lparr>sr_Site = ap_site c, sr_SnapshotID = s_ID (ap_remote c), sr_Generation = s_Generation (ap_remote c),
         sr_State = s_State (ap_remote c), sr_AppliedAt = tUTC (ap_now c)\<rparr>"
      by (simp add: wr mirror_RecordFor_def mirror_apply_commit_def gomap_simps)
  qed (use rec old in \<open>blast+\<close>, unfold Let_def, use apply_decides [OF _ refl refl] in \<open>blast\<close>)
qed

definition mirror_sample :: "string \<Rightarrow> u64 \<Rightarrow> Snapshot" where
  "mirror_sample i g = \<lparr>s_ID = i, s_BaseID = [], s_Operation = ''op'', s_Generation = g, s_Full = True,
     s_State = SnapshotPublished, s_Metadata = mempty, s_Chunks = [], s_CreatedAt = zeroTime\<rparr>"

text \<open>An older update that entered before the newer one was written, and compares afterwards.\<close>

definition mirror_race :: mirror_world where
  "mirror_race = fold world_step [SRegister ''east'', SCall 0 ''east'' (mirror_sample ''s'' 3) None zeroTime,
     SCall 1 ''east'' (mirror_sample ''s'' 2) None zeroTime, SRun 0] mirror_world_New"

lemma mirror_race_eq:
  "mir_records (mw_ledger mirror_race) = mempty"
  "mget (mw_calls mirror_race) t =
     (if t = 0 then Some \<lparr>ap_site = ''east'', ap_remote = mirror_sample ''s'' 3, ap_local = None, ap_now = zeroTime,
        ap_pc = AtWrite\<rparr>
      else if t = 1 then Some \<lparr>ap_site = ''east'', ap_remote = mirror_sample ''s'' 2, ap_local = None,
        ap_now = zeroTime, ap_pc = AtRecordFor\<rparr> else None)"
  by (simp_all add: mirror_race_def mirror_world_New_def mirror_defs apply_enter_def apply_next_def gomap_simps)

lemma mirror_fences_witness:
  "map_option ap_pc (mget (mw_calls (fold world_step [SRun 0, SRun 1] mirror_race)) 1)
     = Some (Returned (Some ErrStaleRemoteGeneration))
   \<and> (\<exists>r. mirror_RecordFor ''east'' ''s'' (mw_ledger (fold world_step [SRun 0, SRun 1] mirror_race)) = Some r
       \<and> 3 \<le> sr_Generation r)"
proof -
  let ?c = "\<lparr>ap_site = ''east'', ap_remote = mirror_sample ''s'' 3, ap_local = None, ap_now = zeroTime,
    ap_pc = AtWrite\<rparr> :: apply_call"
  have c: "mget (mw_calls mirror_race) 0 = Some ?c" and pc: "ap_pc ?c = AtWrite"
    and q: "\<forall>u d. mget (mw_calls mirror_race) u = Some d \<and> ap_pc d = AtWrite \<and> call_key d = call_key ?c \<longrightarrow>
      call_generation ?c \<le> call_generation d"
    by (auto simp: mirror_race_eq split: if_splits)
  have "map_option ap_pc (mget (mw_calls (fold world_step [SRun 0, SRun 1] mirror_race)) 1)
      = Some (Returned (Some ErrStaleRemoteGeneration))"
    by (simp add: mirror_race_eq apply_next_def mirror_defs gomap_simps mirror_sample_def)
  with mirror_fences_stale_updates [OF c pc q refl refl, of "[SRun 1]"] show ?thesis
    by (simp add: call_generation_def mirror_sample_def)
qed

text \<open>
  The report of all records is ordered by site and then snapshot, holds every record of the
  ledger once, and is the same for every order in which the map can be visited, after every
  interleaving of calls.
\<close>

theorem mirror_snapshot_spec:
  assumes "l = mw_ledger (fold world_step schedule mirror_world_New)"
  shows "set (mirror_Snapshot l) = set (mvals (mir_records l))
    \<and> length (mirror_Snapshot l) = mlen (mir_records l)
    \<and> sorted_wrt record_before (mirror_Snapshot l)
    \<and> (\<forall>it. ranges it (mir_records l) \<longrightarrow> sort_by record_before (map snd it) = mirror_Snapshot l)"
proof (intro conjI allI impI)
  have d: "distinct (map record_key (mvals (mir_records l)))"
    unfolding assms using world.inv_reached by (intro distinct_record_key) (simp add: world_ok_def)
  have srt: "sort_by record_before xs = sort_key record_key xs" for xs
    by (rule sort_by_keyI) (rule record_before_key)
  have "sorted_wrt (<) (map record_key (mirror_Snapshot l))"
    using d by (simp add: mirror_Snapshot_def srt strict_sorted_iff)
  then show "sorted_wrt record_before (mirror_Snapshot l)"
    by (simp add: sorted_wrt_map record_before_key [abs_def])
  fix it assume "ranges it (mir_records l)"
  from ranges_sort_filter [OF this d, of "\<lambda>_. True"]
  show "sort_by record_before (map snd it) = mirror_Snapshot l"
    by (simp add: mirror_Snapshot_def srt)
qed (simp_all add: mirror_Snapshot_def)

lemma mirror_snapshot_witness:
  "map sr_Site (mirror_Snapshot (mw_ledger (fold world_step
      [SRegister ''west'', SRegister ''east'', SCall 0 ''west'' (mirror_sample ''s'' 1) None zeroTime,
       SCall 1 ''east'' (mirror_sample ''s'' 1) None zeroTime, SRun 0, SRun 1, SRun 0, SRun 1] mirror_world_New)))
    = [''east'', ''west'']"
  using mirror_snapshot_spec [OF refl, of "[SRegister ''west'', SRegister ''east'',
      SCall 0 ''west'' (mirror_sample ''s'' 1) None zeroTime, SCall 1 ''east'' (mirror_sample ''s'' 1) None zeroTime,
      SRun 0, SRun 1, SRun 0, SRun 1]"]
  by (simp add: mirror_defs mirror_key_def mirror_sample_def mirror_Snapshot_def entries_mput record_before_def
      mirror_world_New_def apply_enter_def apply_next_def gomap_simps)

text \<open>
  The two places where the fence gives way. Of two calls that have both passed their comparison and
  wait to write the same record, the one that writes last leaves its record, however old it is: the
  condition of the fence is needed. And records of different sites and snapshots share a key when a
  bar moves from one name to the other: applying the one replaces the other's record.
\<close>

theorem mirror_fence_gaps:
  assumes "mget (mw_calls w) t = Some new" and "ap_pc new = AtWrite"
    and "mget (mw_calls w) u = Some old" and "ap_pc old = AtWrite" and "t \<noteq> u"
    and w': "w' = fold world_step [SRun t, SRun u] w"
  shows "map_option ap_pc (mget (mw_calls w') t) = Some (Returned None)
    \<and> map_option ap_pc (mget (mw_calls w') u) = Some (Returned None)
    \<and> map_option sr_Generation (mirror_RecordFor (ap_site old) (s_ID (ap_remote old)) (mw_ledger w'))
      = Some (s_Generation (ap_remote old))
    \<and> mirror_RecordFor (site @ ''|'' @ x) y l = mirror_RecordFor site (x @ ''|'' @ y) l"
  using assms(1-5) unfolding w' by (simp add: apply_next_def gomap_simps mirror_apply_commit_def mirror_RecordFor_def
      mirror_key_def)

lemma mirror_fence_gaps_witness:
  "let w = fold world_step [SRun 1, SRun 0, SRun 1] mirror_race
   in map_option ap_pc (mget (mw_calls w) 0) = Some (Returned None)
    \<and> map_option sr_Generation (mirror_RecordFor ''east'' ''s'' (mw_ledger w)) = Some 2"
proof -
  let ?w = "world_step (SRun 1) mirror_race"
  obtain c d where "mget (mw_calls ?w) 0 = Some c" "ap_pc c = AtWrite"
    and d: "mget (mw_calls ?w) 1 = Some d" "ap_pc d = AtWrite" "ap_site d = ''east''" "ap_remote d = mirror_sample ''s'' 2"
    by (simp add: mirror_race_eq apply_next_def mirror_apply_compare_def mirror_RecordFor_def gomap_simps)
  from mirror_fence_gaps [OF this(1,2) d(1,2) _ refl] show ?thesis
    using d(3,4) by (simp add: Let_def mirror_sample_def)
qed

end
