(* ===== verification/GcStore.thy ===== *)
theory GcStore
  imports Model Contracts
begin

text \<open>
  Package \<open>gc\<close> (\<open>internal/gc/store.go\<close>): reference counts of chunk digests and the pins of
  snapshots. The counts are kept in a list of entries, with a map from each digest to its
  position, and a cached list of the live digests. A position the map holds outside the list would
  be a panic in Go; the models leave the store as it is there, and the invariant \<open>gc_ok\<close> shows
  that it never happens. \<open>gc\<close> implements the contract \<open>ref_counter\<close>.
\<close>

record refEntry =
  re_digest :: string
  re_count :: int

record GcStore =
  gc_refs :: "refEntry list"
  gc_index :: "(string, nat) gomap"
  gc_pins :: "(string, bool) gomap"
  gc_digests :: "string list"

definition gc_New :: GcStore where
  "gc_New = \<lparr>gc_refs = [], gc_index = mempty, gc_pins = mempty, gc_digests = []\<rparr>"

definition live :: "refEntry list \<Rightarrow> string list" where
  "live refs = map re_digest (filter (\<lambda>entry. re_count entry > 0) refs)"

definition rebuildDigestsLocked :: "GcStore \<Rightarrow> GcStore" where
  "rebuildDigestsLocked s = s\<lparr>gc_digests := live (gc_refs s)\<rparr>"

definition gc_AddRef :: "string \<Rightarrow> int \<Rightarrow> GcStore \<Rightarrow> GcStore" where
  "gc_AddRef digest n s =
     (if n < 1 then s
      else case mget (gc_index s) digest of
        Some position \<Rightarrow>
          if position < length (gc_refs s) then
            let entry = gc_refs s ! position in
            rebuildDigestsLocked (s\<lparr>gc_refs := (gc_refs s)[position :=
              entry\<lparr>re_count := wrap64 (re_count entry + n)\<rparr>]\<rparr>)
          else s
      | None \<Rightarrow>
          rebuildDigestsLocked (s\<lparr>gc_index := mput (gc_index s) digest (length (gc_refs s)),
            gc_refs := gc_refs s @ [\<lparr>re_digest = digest, re_count = n\<rparr>]\<rparr>))"

text \<open>The loop that gives the entries behind a removed one their new positions.\<close>

fun reindex :: "nat \<Rightarrow> refEntry list \<Rightarrow> (string, nat) gomap \<Rightarrow> (string, nat) gomap" where
  "reindex position [] m = m"
| "reindex position (e # es) m = reindex (Suc position) es (mput m (re_digest e) position)"

definition gc_ReleaseRef :: "string \<Rightarrow> int \<Rightarrow> GcStore \<Rightarrow> GcStore" where
  "gc_ReleaseRef digest n s =
     (if n < 1 then s
      else case mget (gc_index s) digest of
        None \<Rightarrow> s
      | Some position \<Rightarrow>
          if position < length (gc_refs s) then
            let entry = gc_refs s ! position;
                current = wrap64 (re_count entry - n)
            in if current \<le> 0 then
                 let refs = take position (gc_refs s) @ drop (Suc position) (gc_refs s) in
                 rebuildDigestsLocked (s\<lparr>gc_refs := refs,
                   gc_index := reindex position (drop position refs) (mdel (gc_index s) digest)\<rparr>)
               else rebuildDigestsLocked (s\<lparr>gc_refs := (gc_refs s)[position := entry\<lparr>re_count := current\<rparr>]\<rparr>)
          else s)"

definition gc_Refcount :: "string \<Rightarrow> GcStore \<Rightarrow> int" where
  "gc_Refcount digest s =
     (case mget (gc_index s) digest of
        Some position \<Rightarrow> if position < length (gc_refs s) then re_count (gc_refs s ! position) else 0
      | None \<Rightarrow> 0)"

definition gc_Pin :: "string \<Rightarrow> GcStore \<Rightarrow> GcStore" where
  "gc_Pin snapshotID s = s\<lparr>gc_pins := mput (gc_pins s) snapshotID True\<rparr>"

definition gc_Unpin :: "string \<Rightarrow> GcStore \<Rightarrow> GcStore" where
  "gc_Unpin snapshotID s = s\<lparr>gc_pins := mdel (gc_pins s) snapshotID\<rparr>"

definition gc_Pinned :: "string \<Rightarrow> GcStore \<Rightarrow> bool" where
  "gc_Pinned snapshotID s = mgetd False (gc_pins s) snapshotID"

definition gc_Compact :: "GcStore \<Rightarrow> string list" where
  "gc_Compact s = sort (map re_digest (filter (\<lambda>entry. re_count entry > 0) (gc_refs s)))"

fun collect_loop ::
  "time \<Rightarrow> duration \<Rightarrow> (string \<Rightarrow> bool) \<Rightarrow> GcStore \<Rightarrow> Snapshot list \<Rightarrow> string list" where
  "collect_loop now keepWindow referenced s [] = []"
| "collect_loop now keepWindow referenced s (snapshot # snapshots) =
     (if tSub now (s_CreatedAt snapshot) < keepWindow then collect_loop now keepWindow referenced s snapshots
      else if gc_Pinned (s_ID snapshot) s \<or> referenced (s_ID snapshot)
        then collect_loop now keepWindow referenced s snapshots
      else s_ID snapshot # collect_loop now keepWindow referenced s snapshots)"

definition gc_Collect ::
  "time \<Rightarrow> Snapshot list \<Rightarrow> duration \<Rightarrow> (string \<Rightarrow> bool) \<Rightarrow> GcStore \<Rightarrow> string list" where
  "gc_Collect now snapshots keepWindow referenced s =
     sort (collect_loop now keepWindow referenced s snapshots)"

lemmas gc_defs [step_defs] =
  gc_New_def gc_AddRef_def gc_ReleaseRef_def gc_Refcount_def gc_Pin_def gc_Unpin_def gc_Pinned_def
  gc_Compact_def rebuildDigestsLocked_def live_def

section \<open>The index\<close>

text \<open>
  The digests of the entries are distinct and the index is exactly the position of each; the
  counts are positive and fit an \<open>int\<close>; the cache is up to date.
\<close>

definition refs_indexed :: "refEntry list \<Rightarrow> (string, nat) gomap \<Rightarrow> bool" where
  "refs_indexed refs m \<longleftrightarrow> distinct (map re_digest refs)
     \<and> (\<forall>d i. mget m d = Some i \<longleftrightarrow> i < length refs \<and> re_digest (refs ! i) = d)"

definition gc_ok :: "GcStore \<Rightarrow> bool" where
  "gc_ok s \<longleftrightarrow> refs_indexed (gc_refs s) (gc_index s)
     \<and> (\<forall>e \<in> set (gc_refs s). 0 < re_count e \<and> in_int64 (re_count e))
     \<and> gc_digests s = live (gc_refs s)"

text \<open>What the index is meant to represent.\<close>

definition counts :: "refEntry list \<Rightarrow> string \<Rightarrow> int" where
  "counts refs d = (case find (\<lambda>e. re_digest e = d) refs of Some e \<Rightarrow> re_count e | None \<Rightarrow> 0)"

lemma find_nth:
  "\<lbrakk> distinct (map re_digest refs); i < length refs \<rbrakk> \<Longrightarrow>
     find (\<lambda>e. re_digest e = re_digest (refs ! i)) refs = Some (refs ! i)"
proof (induction refs arbitrary: i)
  case (Cons e refs)
  then show ?case by (cases i) (auto dest: nth_mem)
qed simp

lemma refs_indexed_Some:
  assumes "refs_indexed refs m" and "mget m d = Some i"
  shows "i < length refs" and "re_digest (refs ! i) = d" and "counts refs d = re_count (refs ! i)"
  using assms find_nth [of refs i] by (auto simp: refs_indexed_def counts_def)

lemma refs_indexed_None:
  assumes "refs_indexed refs m" and "mget m d = None"
  shows "d \<notin> re_digest ` set refs" and "counts refs d = 0"
proof -
  have "\<forall>i < length refs. re_digest (refs ! i) \<noteq> d"
    using assms by (metis refs_indexed_def option.distinct(1))
  then show n: "d \<notin> re_digest ` set refs" by (auto simp: in_set_conv_nth)
  then have "find (\<lambda>e. re_digest e = d) refs = None" by (auto simp: find_None_iff)
  then show "counts refs d = 0" by (simp add: counts_def)
qed

lemma Refcount_counts: "gc_ok s \<Longrightarrow> gc_Refcount d s = counts (gc_refs s) d"
  by (cases "mget (gc_index s) d")
    (auto simp: gc_Refcount_def gc_ok_def refs_indexed_None refs_indexed_Some)

lemma refs_indexed_append:
  assumes "refs_indexed refs m" and "mget m d = None"
  shows "refs_indexed (refs @ [\<lparr>re_digest = d, re_count = n\<rparr>]) (mput m d (length refs))"
  using assms refs_indexed_None(1) [OF assms]
  by (auto simp: refs_indexed_def gomap_simps nth_append less_Suc_eq)

lemma map_digest_update:
  "i < length refs \<Longrightarrow> map re_digest (refs[i := (refs ! i)\<lparr>re_count := n\<rparr>]) = map re_digest refs"
  by (simp add: map_update list_update_same_conv)

lemma refs_indexed_update:
  assumes "refs_indexed refs m" and "i < length refs"
  shows "refs_indexed (refs[i := (refs ! i)\<lparr>re_count := n\<rparr>]) m"
  using assms map_digest_update [OF assms(2), of n]
  by (auto simp: refs_indexed_def nth_list_update)

lemma reindex_out: "d \<notin> re_digest ` set es \<Longrightarrow> mget (reindex p es m) d = mget m d"
  by (induction es arbitrary: p m) (auto simp: gomap_simps)

lemma reindex_in:
  "\<lbrakk> distinct (map re_digest es); i < length es \<rbrakk> \<Longrightarrow>
     mget (reindex p es m) (re_digest (es ! i)) = Some (p + i)"
proof (induction es arbitrary: p m i)
  case (Cons e es)
  then show ?case by (cases i) (auto simp: reindex_out gomap_simps)
qed simp

text \<open>Removing an entry and moving the positions behind it keeps the index exact.\<close>

lemma refs_indexed_remove:
  assumes ix: "refs_indexed refs m" and p: "p < length refs"
  defines "rest \<equiv> take p refs @ drop (Suc p) refs"
  shows "refs_indexed rest (reindex p (drop p rest) (mdel m (re_digest (refs ! p))))"
proof -
  let ?tl = "drop (Suc p) refs" and ?d0 = "re_digest (refs ! p)"
  have refs: "refs = take p refs @ refs ! p # ?tl" using p by (rule id_take_nth_drop)
  have len: "length (take p refs) = p" using p by simp
  have tl: "drop p rest = ?tl" using p by (simp add: rest_def)
  have dist: "distinct (map re_digest refs)" using ix by (simp add: refs_indexed_def)
  then have "distinct (map re_digest (take p refs @ refs ! p # ?tl))" using refs by simp
  then have dr: "distinct (map re_digest rest)" and dt: "distinct (map re_digest ?tl)"
    and d0: "?d0 \<notin> set (map re_digest rest)"
    by (auto simp: rest_def)
  have old: "mget m d = Some i \<longleftrightarrow> i < length refs \<and> re_digest (refs ! i) = d" for d i
    using ix by (simp add: refs_indexed_def)
  have "mget (reindex p ?tl (mdel m ?d0)) d = Some i \<longleftrightarrow> i < length rest \<and> re_digest (rest ! i) = d" for d i
  proof (cases "\<exists>j < length ?tl. re_digest (?tl ! j) = d")
    case True
    then obtain j where j: "j < length ?tl" "re_digest (?tl ! j) = d" by blast
    then have "mget (reindex p ?tl (mdel m ?d0)) d = Some (p + j)"
      using reindex_in [OF dt] by blast
    moreover have "p + j < length rest" "re_digest (rest ! (p + j)) = d"
      using j p by (simp_all add: rest_def nth_append)
    ultimately show ?thesis
      using dr by (auto simp: distinct_conv_nth)
  next
    case False
    then have "d \<notin> re_digest ` set ?tl" by (metis image_iff in_set_conv_nth)
    then have "mget (reindex p ?tl (mdel m ?d0)) d = (if d = ?d0 then None else mget m d)"
      by (simp add: reindex_out gomap_simps)
    moreover have "i < length rest \<and> re_digest (rest ! i) = d \<longleftrightarrow> i < p \<and> re_digest (refs ! i) = d"
    proof -
      have "i < length rest \<Longrightarrow> \<not> i < p \<Longrightarrow> re_digest (rest ! i) \<noteq> d"
        using False [unfolded not_ex, THEN spec, of "i - p"] p by (auto simp: rest_def nth_append)
      then show ?thesis using p by (auto simp: rest_def nth_append)
    qed
    moreover have "mget m d = Some i \<and> d \<noteq> ?d0 \<longleftrightarrow> i < p \<and> re_digest (refs ! i) = d"
    proof -
      have "d \<noteq> ?d0" if "i < p" "re_digest (refs ! i) = d"
        using that p dist by (auto simp: distinct_conv_nth)
      moreover have "i < p" if "i < length refs" "re_digest (refs ! i) = d" "d \<noteq> ?d0"
      proof (rule ccontr)
        assume "\<not> i < p"
        with that have "i \<noteq> p" "Suc p \<le> i" by (auto simp: not_less le_less Suc_le_eq)
        then have "re_digest (?tl ! (i - Suc p)) = d" "i - Suc p < length ?tl" using that by auto
        with False show False by blast
      qed
      ultimately show ?thesis using old [of d i] p by auto
    qed
    ultimately show ?thesis by auto
  qed
  with dr tl show ?thesis by (simp add: refs_indexed_def)
qed

section \<open>The contract of a reference counter\<close>

lemma counts_remove:
  "distinct (map re_digest (xs @ x # ys)) \<Longrightarrow>
     counts (xs @ ys) d = (if d = re_digest x then 0 else counts (xs @ x # ys) d)"
proof (induction xs)
  case Nil
  then have "d = re_digest x \<Longrightarrow> find (\<lambda>e. re_digest e = d) ys = None"
    by (auto simp: find_None_iff image_iff)
  then show ?case by (auto simp: counts_def)
next
  case (Cons y xs)
  then show ?case by (auto simp: counts_def)
qed

lemma gc_ok_AddRef:
  assumes "gc_ok s" and "in_int64 (gc_Refcount d s + n)"
  shows "gc_ok (gc_AddRef d n s)"
proof (cases "mget (gc_index s) d")
  case None
  with assms show ?thesis
    by (auto simp: gc_ok_def gc_AddRef_def rebuildDigestsLocked_def gc_Refcount_def refs_indexed_append)
next
  case (Some i)
  then have i: "i < length (gc_refs s)" and c: "gc_Refcount d s = re_count (gc_refs s ! i)"
    using assms(1) refs_indexed_Some [of "gc_refs s" "gc_index s" d i] by (auto simp: gc_ok_def gc_Refcount_def)
  then have "\<not> n < 1 \<Longrightarrow> 0 < re_count (gc_refs s ! i) + n"
    using assms(1) by (fastforce simp: gc_ok_def dest: nth_mem)
  then show ?thesis
    using assms Some i c
    by (auto simp: gc_ok_def gc_AddRef_def rebuildDigestsLocked_def Let_def refs_indexed_update wrap64_id
        dest!: set_update_subset_insert [THEN subsetD])
qed

lemma gc_ok_ReleaseRef:
  assumes "gc_ok s"
  shows "gc_ok (gc_ReleaseRef d n s)"
proof (cases "n < 1 \<or> mget (gc_index s) d = None")
  case True
  with assms show ?thesis by (auto simp: gc_ReleaseRef_def)
next
  case False
  then obtain i where ix: "mget (gc_index s) d = Some i" by auto
  then have i: "i < length (gc_refs s)" and d: "re_digest (gc_refs s ! i) = d"
    using assms refs_indexed_Some [of "gc_refs s" "gc_index s" d i] by (auto simp: gc_ok_def)
  have "set (take i (gc_refs s) @ drop (Suc i) (gc_refs s)) \<subseteq> set (gc_refs s)"
    using set_take_subset set_drop_subset by fastforce
  moreover have "refs_indexed (take i (gc_refs s) @ drop (Suc i) (gc_refs s))
      (reindex i (drop i (take i (gc_refs s) @ drop (Suc i) (gc_refs s))) (mdel (gc_index s) d))"
    using refs_indexed_remove [OF _ i, of "gc_index s"] assms by (simp add: gc_ok_def d)
  ultimately show ?thesis
    using assms False ix i wrap64_range
    by (auto simp: gc_ok_def gc_ReleaseRef_def rebuildDigestsLocked_def Let_def refs_indexed_update
        dest!: set_update_subset_insert [THEN subsetD])
qed

lemma Refcount_at:
  "mget (gc_index s) d = Some i \<Longrightarrow> gc_Refcount d s = (if i < length (gc_refs s) then re_count (gc_refs s ! i) else 0)"
  by (simp add: gc_Refcount_def)

lemma Refcount_absent: "mget (gc_index s) d = None \<Longrightarrow> gc_Refcount d s = 0"
  by (simp add: gc_Refcount_def)

text \<open>A new count for the entry of one digest changes the count of that digest only.\<close>

lemma Refcount_update:
  assumes ok: "gc_ok s" and ix: "mget (gc_index s) d = Some i"
  shows "gc_Refcount e (rebuildDigestsLocked (s\<lparr>gc_refs := (gc_refs s)[i := (gc_refs s ! i)\<lparr>re_count := n\<rparr>]\<rparr>))
     = (if e = d then n else gc_Refcount e s)"
proof (cases "mget (gc_index s) e")
  case None
  with ix have "e \<noteq> d" by auto
  with None show ?thesis by (simp add: Refcount_absent rebuildDigestsLocked_def)
next
  case (Some j)
  have ind: "refs_indexed (gc_refs s) (gc_index s)" using ok by (simp add: gc_ok_def)
  have i: "i < length (gc_refs s)" and j: "j < length (gc_refs s)"
    using refs_indexed_Some(1) [OF ind ix] refs_indexed_Some(1) [OF ind Some] by simp_all
  have "j = i \<longleftrightarrow> e = d"
    by (metis refs_indexed_Some(2) [OF ind ix] refs_indexed_Some(2) [OF ind Some] ix Some option.inject)
  moreover have "gc_Refcount e (rebuildDigestsLocked (s\<lparr>gc_refs := (gc_refs s)[i := (gc_refs s ! i)\<lparr>re_count := n\<rparr>]\<rparr>))
     = (if j = i then n else re_count (gc_refs s ! j))"
    unfolding gc_Refcount_def rebuildDigestsLocked_def using Some i j by simp
  ultimately show ?thesis using Some j by (simp add: Refcount_at)
qed

lemma Refcount_AddRef:
  assumes "gc_ok s" and "in_int64 (gc_Refcount d s + n)"
  shows "gc_Refcount e (gc_AddRef d n s) =
    (if e = d \<and> 0 < n then gc_Refcount e s + n else gc_Refcount e s)"
proof (cases "mget (gc_index s) d")
  case None
  then have "e \<noteq> d \<Longrightarrow> gc_Refcount e (rebuildDigestsLocked (s\<lparr>gc_index := mput (gc_index s) d (length (gc_refs s)),
      gc_refs := gc_refs s @ [\<lparr>re_digest = d, re_count = n\<rparr>]\<rparr>)) = gc_Refcount e s"
    using assms(1) refs_indexed_Some(1) [of "gc_refs s" "gc_index s" e]
    by (cases "mget (gc_index s) e") (auto simp: gc_ok_def gc_Refcount_def rebuildDigestsLocked_def nth_append)
  with None show ?thesis
    by (auto simp: gc_AddRef_def Refcount_absent) (simp add: gc_Refcount_def rebuildDigestsLocked_def)
next
  case (Some i)
  then have "i < length (gc_refs s)"
    using assms(1) refs_indexed_Some(1) [of "gc_refs s" "gc_index s" d i] by (simp add: gc_ok_def)
  with Some assms(2) show ?thesis
    by (simp add: gc_AddRef_def Let_def Refcount_update [OF assms(1) Some] Refcount_at wrap64_id)
qed

lemma Refcount_ReleaseRef:
  assumes ok: "gc_ok s" and n: "in_int64 n"
  shows "gc_Refcount e (gc_ReleaseRef d n s) =
    (if e = d \<and> 0 < n then max 0 (gc_Refcount e s - n) else gc_Refcount e s)"
proof (cases "n < 1 \<or> mget (gc_index s) d = None")
  case True
  then have "gc_ReleaseRef d n s = s" by (auto simp: gc_ReleaseRef_def)
  with True show ?thesis by (auto simp: gc_Refcount_def)
next
  case False
  then obtain i where ix: "mget (gc_index s) d = Some i" by auto
  let ?refs = "gc_refs s"
  have i: "i < length ?refs" and d: "re_digest (?refs ! i) = d" and dist: "distinct (map re_digest ?refs)"
    using ok refs_indexed_Some [OF _ ix, of ?refs] by (simp_all add: gc_ok_def refs_indexed_def)
  let ?c = "re_count (?refs ! i)"
  have cd: "gc_Refcount d s = ?c" using ix i by (simp add: Refcount_at)
  have "0 < ?c \<and> in_int64 ?c" using ok i by (simp add: gc_ok_def)
  then have w: "wrap64 (?c - n) = ?c - n"
    using False n by (intro wrap64_id) (auto simp: in_int64_def minInt64_def maxInt64_def)
  have split: "?refs = take i ?refs @ ?refs ! i # drop (Suc i) ?refs" by (rule id_take_nth_drop [OF i])
  have "counts (take i ?refs @ drop (Suc i) ?refs) e = (if e = d then 0 else counts ?refs e)"
    using counts_remove [of "take i ?refs" "?refs ! i" "drop (Suc i) ?refs" e] dist split d by simp
  then have rem: "?c - n \<le> 0 \<Longrightarrow> gc_Refcount e (gc_ReleaseRef d n s) = (if e = d then 0 else gc_Refcount e s)"
    unfolding Refcount_counts [OF gc_ok_ReleaseRef [OF ok]] Refcount_counts [OF ok]
    using False ix i w by (simp add: gc_ReleaseRef_def rebuildDigestsLocked_def Let_def)
  show ?thesis
  proof (cases "?c - n \<le> 0")
    case True
    with rem cd False show ?thesis by auto
  next
    case keep: False
    then have "gc_ReleaseRef d n s =
        rebuildDigestsLocked (s\<lparr>gc_refs := ?refs[i := (?refs ! i)\<lparr>re_count := ?c - n\<rparr>]\<rparr>)"
      using False ix i w by (simp add: gc_ReleaseRef_def Let_def)
    with keep False cd show ?thesis by (simp add: Refcount_update [OF ok ix])
  qed
qed

interpretation refs: ref_counter gc_ok "\<lambda>s d. gc_Refcount d s" gc_AddRef gc_ReleaseRef
proof
  fix s d assume "gc_ok s"
  then show "0 \<le> gc_Refcount d s"
    by (cases "mget (gc_index s) d")
      (auto simp: gc_Refcount_def gc_ok_def less_imp_le)
qed (simp_all add: gc_ok_AddRef gc_ok_ReleaseRef Refcount_AddRef Refcount_ReleaseRef)

section \<open>Refinement of the counts\<close>

datatype gc_op = GAdd string int | GRelease string int | GPin string | GUnpin string

fun gc_step :: "gc_op \<Rightarrow> GcStore \<Rightarrow> GcStore" where
  "gc_step (GAdd d n) s = gc_AddRef d n s"
| "gc_step (GRelease d n) s = gc_ReleaseRef d n s"
| "gc_step (GPin i) s = gc_Pin i s"
| "gc_step (GUnpin i) s = gc_Unpin i s"

text \<open>The specification: a count per digest, that releases do not take below zero.\<close>

fun count_step :: "gc_op \<Rightarrow> (string \<Rightarrow> int) \<Rightarrow> string \<Rightarrow> int" where
  "count_step (GAdd d n) c = (if 0 < n then c(d := c d + n) else c)"
| "count_step (GRelease d n) c = (if 0 < n then c(d := max 0 (c d - n)) else c)"
| "count_step _ c = c"

text \<open>The arguments are \<open>int\<close> values and no count outgrows an \<open>int\<close>.\<close>

fun fits :: "(string \<Rightarrow> int) \<Rightarrow> gc_op list \<Rightarrow> bool" where
  "fits c [] \<longleftrightarrow> True"
| "fits c (op # ops) \<longleftrightarrow>
     (case op of GAdd d n \<Rightarrow> in_int64 (c d + n) | GRelease d n \<Rightarrow> in_int64 n | _ \<Rightarrow> True)
     \<and> fits (count_step op c) ops"

lemma gc_ok_pins [simp]:
  "gc_ok (gc_Pin i s) \<longleftrightarrow> gc_ok s" "gc_ok (gc_Unpin i s) \<longleftrightarrow> gc_ok s"
  "gc_Refcount d (gc_Pin i s) = gc_Refcount d s" "gc_Refcount d (gc_Unpin i s) = gc_Refcount d s"
  by (simp_all add: gc_ok_def gc_Pin_def gc_Unpin_def gc_Refcount_def split: option.split)

lemma gc_simulation:
  assumes "gc_ok s" and "\<And>d. gc_Refcount d s = c d" and "fits c ops"
  shows "gc_ok (fold gc_step ops s) \<and> (\<forall>d. gc_Refcount d (fold gc_step ops s) = fold count_step ops c d)"
  using assms
proof (induction ops arbitrary: s c)
  case (Cons op ops)
  have "gc_ok (gc_step op s) \<and> (\<forall>d. gc_Refcount d (gc_step op s) = count_step op c d)"
    using Cons.prems
    by (cases op) (auto simp: gc_ok_AddRef gc_ok_ReleaseRef Refcount_AddRef Refcount_ReleaseRef)
  then show ?case using Cons.IH [of "gc_step op s" "count_step op c"] Cons.prems(3) by simp
qed simp

lemma gc_ok_New: "gc_ok gc_New" "gc_Refcount d gc_New = 0"
  by (simp_all add: gc_ok_def gc_New_def refs_indexed_def live_def gc_Refcount_def)

lemma Compact_spec:
  assumes "gc_ok s"
  shows "set (gc_Compact s) = {d. 0 < gc_Refcount d s} \<and> sorted_wrt (<) (gc_Compact s)"
proof
  have all: "filter (\<lambda>e. 0 < re_count e) (gc_refs s) = gc_refs s"
    using assms by (simp add: gc_ok_def filter_id_conv)
  then show "sorted_wrt (<) (gc_Compact s)"
    using assms by (simp add: gc_Compact_def gc_ok_def refs_indexed_def strict_sorted_iff)
  have "d \<in> re_digest ` set (gc_refs s) \<longleftrightarrow> 0 < gc_Refcount d s" for d
  proof (cases "mget (gc_index s) d")
    case None
    with assms show ?thesis
      using refs_indexed_None [of "gc_refs s" "gc_index s" d] by (simp add: gc_ok_def gc_Refcount_def)
  next
    case (Some i)
    with assms show ?thesis
      using refs_indexed_Some [of "gc_refs s" "gc_index s" d i] by (auto simp: gc_ok_def gc_Refcount_def)
  qed
  then show "set (gc_Compact s) = {d. 0 < gc_Refcount d s}"
    by (auto simp: gc_Compact_def all)
qed

lemma collect_loop_filter:
  "collect_loop now keep ref s sns = map s_ID (filter (\<lambda>sn. \<not> tSub now (s_CreatedAt sn) < keep
     \<and> \<not> gc_Pinned (s_ID sn) s \<and> \<not> ref (s_ID sn)) sns)"
  by (induction sns) auto

section \<open>Properties\<close>

text \<open>
  C16: the store of entries, index and cache implements the specification of a reference counter.
  After any sequence of additions, releases, pins and unpins whose counts fit an \<open>int\<close>, the
  count of every digest is the specified one, \<open>Compact\<close> lists exactly the digests with a
  positive count, strictly sorted, the cache agrees with it, and the index points at the entry of
  each digest, within the list.
\<close>

theorem gc_refines_counts:
  assumes "fits (\<lambda>_. 0) ops"
  shows "let s = fold gc_step ops gc_New; c = fold count_step ops (\<lambda>_. 0) in
      (\<forall>d. gc_Refcount d s = c d)
    \<and> set (gc_Compact s) = {d. 0 < c d} \<and> sorted_wrt (<) (gc_Compact s)
    \<and> sort (gc_digests s) = gc_Compact s
    \<and> (\<forall>d i. mget (gc_index s) d = Some i \<longrightarrow> i < length (gc_refs s) \<and> re_digest (gc_refs s ! i) = d)"
proof -
  let ?s = "fold gc_step ops gc_New"
  have "gc_ok ?s \<and> (\<forall>d. gc_Refcount d ?s = fold count_step ops (\<lambda>_. 0) d)"
    by (rule gc_simulation) (use assms gc_ok_New in auto)
  moreover from this have "sort (gc_digests ?s) = gc_Compact ?s"
    by (simp add: gc_ok_def gc_Compact_def live_def)
  ultimately show ?thesis
    using Compact_spec [of ?s] by (auto simp: Let_def gc_ok_def refs_indexed_def)
qed

lemma gc_refines_counts_witness:
  "let s = fold gc_step [GAdd ''b'' 2, GAdd ''a'' 1, GAdd ''c'' 1, GRelease ''b'' 3, GRelease ''c'' 0] gc_New
   in gc_Compact s = [''a'', ''c''] \<and> gc_Refcount ''c'' s = 1"
proof -
  let ?ops = "[GAdd ''b'' 2, GAdd ''a'' 1, GAdd ''c'' 1, GRelease ''b'' 3, GRelease ''c'' 0]"
  have "fits (\<lambda>_. 0) ?ops" by (simp add: in_int64_def minInt64_def maxInt64_def)
  from gc_refines_counts [OF this] have "gc_Refcount ''c'' (fold gc_step ?ops gc_New) = 1"
    by (simp add: Let_def)
  then show ?thesis by (simp add: gc_defs Let_def wrap64_def)
qed

text \<open>
  \<open>Collect\<close> returns, sorted and once per occurrence, exactly the ids of the given snapshots
  that are at least as old as the window and neither pinned nor referenced; in particular a pinned
  snapshot, a referenced one and one inside the window are never returned.
\<close>

theorem gc_collect_spec:
  "mset (gc_Collect now sns keep ref s) = mset (map s_ID (filter (\<lambda>sn. keep \<le> tSub now (s_CreatedAt sn)
      \<and> \<not> gc_Pinned (s_ID sn) s \<and> \<not> ref (s_ID sn)) sns))
   \<and> sorted (gc_Collect now sns keep ref s)
   \<and> i \<notin> set (gc_Collect now sns keep ref (gc_Pin i s))
   \<and> gc_Collect now sns keep ref (gc_Unpin i (gc_Pin i s)) = gc_Collect now sns keep ref (gc_Unpin i s)"
proof -
  have "gc_Pinned j (gc_Unpin i (gc_Pin i s)) = gc_Pinned j (gc_Unpin i s)" for j
    by (simp add: gc_Pinned_def gc_Pin_def gc_Unpin_def)
  then show ?thesis
    by (auto simp: gc_Collect_def collect_loop_filter not_less gc_Pinned_def gc_Pin_def)
qed

end
