(* ===== verification/MigrationStore.thy ===== *)
theory MigrationStore
  imports Model Contracts
begin

text \<open>
  Package \<open>migration\<close> (\<open>internal/migration/store.go\<close>, \<open>runner.go\<close>): the schema version of
  each snapshot's manifest. The runner reads the version and sets it in two locked steps;
  \<open>migrate_check\<close> and \<open>migrate_commit\<close> are its two halves, and other migrations may run
  between them. \<open>ctx.Err()\<close> is an argument: \<open>None\<close> for a live context.
\<close>

record MigrationStore =
  mig_versions :: "(string, u64) gomap"

definition migration_NewStore :: MigrationStore where
  "migration_NewStore = \<lparr>mig_versions = mempty\<rparr>"

definition migration_Version :: "string \<Rightarrow> MigrationStore \<Rightarrow> u64" where
  "migration_Version snapshotID s = mgetd 0 (mig_versions s) snapshotID"

definition migration_SetVersion ::
  "string \<Rightarrow> u64 \<Rightarrow> MigrationStore \<Rightarrow> MigrationStore \<times> error option" where
  "migration_SetVersion snapshotID version s =
     (case mget (mig_versions s) snapshotID of
        Some current \<Rightarrow> if version < current then (s, Some ErrVersionConflict)
          else (s\<lparr>mig_versions := mput (mig_versions s) snapshotID version\<rparr>, None)
      | None \<Rightarrow> (s\<lparr>mig_versions := mput (mig_versions s) snapshotID version\<rparr>, None))"

record Runner =
  run_store :: MigrationStore
  run_done :: "(string, bool) gomap"

definition migration_NewRunner :: "MigrationStore \<Rightarrow> Runner" where
  "migration_NewRunner store = \<lparr>run_store = store, run_done = mempty\<rparr>"

definition migrate_check :: "error option \<Rightarrow> string \<Rightarrow> u64 \<Rightarrow> Runner \<Rightarrow> error option" where
  "migrate_check ctxErr snapshotID from r =
     (case ctxErr of
        Some e \<Rightarrow> Some e
      | None \<Rightarrow> if migration_Version snapshotID (run_store r) \<noteq> from then Some ErrVersionConflict else None)"

definition migrate_commit :: "string \<Rightarrow> u64 \<Rightarrow> Runner \<Rightarrow> Runner \<times> error option" where
  "migrate_commit snapshotID to r =
     (case migration_SetVersion snapshotID to (run_store r) of
        (_, Some e) \<Rightarrow> (r, Some e)
      | (store, None) \<Rightarrow> (\<lparr>run_store = store, run_done = mput (run_done r) snapshotID True\<rparr>, None))"

definition migration_Migrate ::
  "error option \<Rightarrow> string \<Rightarrow> u64 \<Rightarrow> u64 \<Rightarrow> Runner \<Rightarrow> Runner \<times> error option" where
  "migration_Migrate ctxErr snapshotID from to r =
     (case migrate_check ctxErr snapshotID from r of
        Some e \<Rightarrow> (r, Some e)
      | None \<Rightarrow> migrate_commit snapshotID to r)"

definition migration_Migrated :: "string \<Rightarrow> Runner \<Rightarrow> bool" where
  "migration_Migrated snapshotID r = mgetd False (run_done r) snapshotID"

lemmas migration_defs [step_defs] =
  migration_NewStore_def migration_Version_def migration_SetVersion_def migration_NewRunner_def
  migrate_check_def migrate_commit_def migration_Migrate_def migration_Migrated_def

text \<open>The commits of any number of runs, in the order they take the lock.\<close>

fun migration_step :: "string \<times> u64 \<Rightarrow> Runner \<Rightarrow> Runner" where
  "migration_step (snapshotID, to) r = fst (migrate_commit snapshotID to r)"

interpretation versions: monotone_store migration_step "\<lambda>r i. migration_Version i (run_store r)"
  by unfold_locales
    (rename_tac r k op, case_tac op,
      auto simp: migration_defs gomap_simps mgetd_def not_less split: option.splits)

section \<open>Properties\<close>

text \<open>
  C36: a migration succeeds exactly when the context is live, the snapshot stands at \<open>from\<close> and
  \<open>to\<close> is not below it; then it stands at \<open>to\<close> and counts as migrated, and nothing else
  changed. Every refusal leaves the runner as it was, a cancelled context with the context's own
  error. Whatever commits of other migrations are interleaved with it, a version never goes back.
\<close>

theorem migration_forward_only:
  "(case migration_Migrate ctxErr i from to r of
      (r', None) \<Rightarrow> ctxErr = None \<and> migration_Version i (run_store r) = from \<and> from \<le> to
        \<and> migration_Version i (run_store r') = to \<and> migration_Migrated i r'
        \<and> (\<forall>j. j \<noteq> i \<longrightarrow> migration_Version j (run_store r') = migration_Version j (run_store r)
             \<and> migration_Migrated j r' = migration_Migrated j r)
    | (r', Some e) \<Rightarrow> r' = r
        \<and> (ctxErr = Some e \<or> ctxErr = None \<and> e = ErrVersionConflict
             \<and> (migration_Version i (run_store r) \<noteq> from \<or> to < from)))
   \<and> migration_Version j (run_store r) \<le> migration_Version j (run_store (fold migration_step others r))"
proof
  show "migration_Version j (run_store r) \<le> migration_Version j (run_store (fold migration_step others r))"
    by (rule versions.run_mono)
qed (auto simp: migration_defs gomap_simps mgetd_def not_less split: option.splits)

lemma migration_forward_only_witness:
  "let r = fst (migration_Migrate None ''s'' 0 2 (migration_NewRunner migration_NewStore))
   in migration_Version ''s'' (run_store r) = 2
    \<and> 2 \<le> migration_Version ''s'' (run_store (fold migration_step [(''s'', 1), (''s'', 3)] r))"
proof -
  let ?r = "fst (migration_Migrate None ''s'' 0 2 (migration_NewRunner migration_NewStore))"
  have "migration_Version ''s'' (run_store ?r) = 2" by (simp add: migration_defs)
  then show ?thesis
    using migration_forward_only [where r = ?r and j = "''s''" and others = "[(''s'', 1), (''s'', 3)]"]
    by (simp add: Let_def)
qed

end
