(* ===== verification/QuarantineStore.thy ===== *)
theory QuarantineStore
  imports Model Contracts
begin

text \<open>
  Package \<open>quarantine\<close> (\<open>internal/quarantine/store.go\<close>): corrupt chunks by digest, whether
  they passed a re-verification, and which digests were cleared.
\<close>

record qEntry =
  qe_Digest :: string
  qe_Reason :: string
  qe_QuarantinedAt :: time
  qe_Verified :: bool

record QuarantineStore =
  qs_entries :: "(string, qEntry) gomap"
  qs_cleared :: "(string, bool) gomap"

definition quarantine_New :: QuarantineStore where
  "quarantine_New = \<lparr>qs_entries = mempty, qs_cleared = mempty\<rparr>"

definition quarantine_Admit ::
  "string \<Rightarrow> string \<Rightarrow> time \<Rightarrow> QuarantineStore \<Rightarrow> QuarantineStore \<times> error option" where
  "quarantine_Admit digest reason now s =
     (if mget (qs_entries s) digest \<noteq> None then (s, Some ErrAlreadyQuarantined)
      else (s\<lparr>qs_entries := mput (qs_entries s) digest
              \<lparr>qe_Digest = digest, qe_Reason = reason, qe_QuarantinedAt = tUTC now, qe_Verified = False\<rparr>\<rparr>, None))"

definition quarantine_Reverify ::
  "string \<Rightarrow> bool \<Rightarrow> error option \<Rightarrow> time \<Rightarrow> QuarantineStore \<Rightarrow> QuarantineStore \<times> error option" where
  "quarantine_Reverify digest matches verifyErr now s =
     (case verifyErr of
        Some e \<Rightarrow> (s, Some e)
      | None \<Rightarrow>
          (case mget (qs_entries s) digest of
             None \<Rightarrow> (s, Some ErrNotQuarantined)
           | Some entry \<Rightarrow>
               if \<not> matches then
                 (s\<lparr>qs_entries := mput (qs_entries s) digest
                    (entry\<lparr>qe_Reason := ''digest mismatch after re-verification'',
                           qe_QuarantinedAt := tUTC now\<rparr>)\<rparr>, None)
               else
                 (s\<lparr>qs_entries := mput (qs_entries s) digest (entry\<lparr>qe_Verified := True\<rparr>),
                    qs_cleared := mdel (qs_cleared s) digest\<rparr>, None)))"

definition quarantine_Entry :: "string \<Rightarrow> QuarantineStore \<Rightarrow> qEntry option" where
  "quarantine_Entry digest s = mget (qs_entries s) digest"

definition quarantine_Clear :: "string \<Rightarrow> QuarantineStore \<Rightarrow> QuarantineStore \<times> bool" where
  "quarantine_Clear digest s =
     (if mget (qs_entries s) digest = None then (s, False)
      else (\<lparr>qs_entries = mdel (qs_entries s) digest, qs_cleared = mput (qs_cleared s) digest True\<rparr>, True))"

definition quarantine_Cleared :: "string \<Rightarrow> QuarantineStore \<Rightarrow> bool" where
  "quarantine_Cleared digest s = mgetd False (qs_cleared s) digest"

lemmas quarantine_defs [step_defs] =
  quarantine_New_def quarantine_Admit_def quarantine_Reverify_def quarantine_Entry_def
  quarantine_Clear_def quarantine_Cleared_def

datatype quarantine_op =
    QAdmit string string time | QReverify string bool "error option" time | QClear string

fun quarantine_step :: "quarantine_op \<Rightarrow> QuarantineStore \<Rightarrow> QuarantineStore" where
  "quarantine_step (QAdmit d r now) s = fst (quarantine_Admit d r now s)"
| "quarantine_step (QReverify d m e now) s = fst (quarantine_Reverify d m e now s)"
| "quarantine_step (QClear d) s = fst (quarantine_Clear d s)"

text \<open>
  The store with the history that matters for a digest: whether a comparison matched, without a
  verification error, since its entry was admitted.
\<close>

fun passed_step :: "quarantine_op \<Rightarrow> QuarantineStore \<times> (string \<Rightarrow> bool) \<Rightarrow> QuarantineStore \<times> (string \<Rightarrow> bool)" where
  "passed_step op (s, passed) =
     (quarantine_step op s,
      (case op of
         QAdmit d r now \<Rightarrow> if quarantine_Entry d s = None then passed(d := False) else passed
       | QReverify d m e now \<Rightarrow>
           if e = None \<and> m \<and> quarantine_Entry d s \<noteq> None then passed(d := True) else passed
       | QClear d \<Rightarrow> passed))"

definition verified_iff_passed :: "QuarantineStore \<times> (string \<Rightarrow> bool) \<Rightarrow> bool" where
  "verified_iff_passed st \<longleftrightarrow> (\<forall>d e. quarantine_Entry d (fst st) = Some e \<longrightarrow>
     qe_Digest e = d \<and> (qe_Verified e \<longleftrightarrow> snd st d))"

interpretation quarantine_inv: invariant_machine "(quarantine_New, \<lambda>_. False)" passed_step verified_iff_passed
proof
  fix st op assume "verified_iff_passed st"
  moreover obtain s passed where "st = (s, passed)" by (cases st)
  ultimately show "verified_iff_passed (passed_step op st)"
    by (cases op)
      (auto simp: verified_iff_passed_def quarantine_defs gomap_simps split: option.splits if_splits)
qed (simp add: verified_iff_passed_def quarantine_defs)

section \<open>Properties\<close>

text \<open>
  C40: a quarantined chunk is marked verified exactly when, since it was admitted, a comparison
  matched without a verification error, after any sequence of operations. A verification error is
  returned as it is and changes nothing, whatever the comparison said; re-verifying an unknown
  digest and admitting a quarantined one are refused.
\<close>

theorem quarantine_verified_only_by_match:
  "verified_iff_passed (fold passed_step ops (quarantine_New, \<lambda>_. False))
   \<and> quarantine_Reverify d m (Some e) now s = (s, Some e)
   \<and> (quarantine_Entry d s = None \<longrightarrow> quarantine_Reverify d m None now s = (s, Some ErrNotQuarantined))
   \<and> (quarantine_Entry d s \<noteq> None \<longrightarrow> quarantine_Admit d r now s = (s, Some ErrAlreadyQuarantined))"
  using quarantine_inv.inv_reached [of ops] by (simp add: quarantine_defs)

lemma quarantine_verified_witness:
  "let s = fst (quarantine_Admit ''d'' ''bad'' zeroTime quarantine_New)
   in quarantine_Admit ''d'' ''again'' zeroTime s = (s, Some ErrAlreadyQuarantined)
    \<and> quarantine_Reverify ''x'' True None zeroTime s = (s, Some ErrNotQuarantined)"
  using quarantine_verified_only_by_match [of "[]" "''d''" True ErrNotFound zeroTime
      "fst (quarantine_Admit ''d'' ''bad'' zeroTime quarantine_New)" "''again''"]
    quarantine_verified_only_by_match [of "[]" "''x''" True ErrNotFound zeroTime
      "fst (quarantine_Admit ''d'' ''bad'' zeroTime quarantine_New)" "''again''"]
  by (simp add: Let_def quarantine_defs)

text \<open>
  What the store does not promise. A mismatch after a match leaves the mark in place, so an
  entry can be verified with the reason of a mismatch, and the call reports no error; and
  \<open>Clear\<close> releases a quarantined digest that never passed a comparison, after which it can be
  cleared no more but admitted again, still counted as cleared.
\<close>

theorem quarantine_gaps:
  assumes "quarantine_Entry d s = Some e"
  shows "(let s1 = fst (quarantine_Reverify d True None now s);
              (s2, err) = quarantine_Reverify d False None now s1
          in err = None \<and> (\<exists>e2. quarantine_Entry d s2 = Some e2 \<and> qe_Verified e2
               \<and> qe_Reason e2 = ''digest mismatch after re-verification''))
    \<and> (let (s3, ok) = quarantine_Clear d s
        in ok \<and> quarantine_Entry d s3 = None \<and> quarantine_Cleared d s3
          \<and> snd (quarantine_Clear d s3) = False
          \<and> (let (s4, err) = quarantine_Admit d r now s3 in err = None \<and> quarantine_Cleared d s4))"
  using assms by (simp add: quarantine_defs Let_def)

lemma quarantine_gaps_witness:
  "snd (quarantine_Clear ''d'' (fst (quarantine_Admit ''d'' ''bad'' zeroTime quarantine_New)))"
proof -
  let ?s = "fst (quarantine_Admit ''d'' ''bad'' zeroTime quarantine_New)"
  have "\<exists>e. quarantine_Entry ''d'' ?s = Some e" by (simp add: quarantine_defs)
  then obtain e where "quarantine_Entry ''d'' ?s = Some e" by blast
  from quarantine_gaps [OF this, of zeroTime "''r''"] show ?thesis by (auto simp: Let_def split: prod.splits)
qed

end
