(* ===== verification/WatermarkLedger.thy ===== *)
theory WatermarkLedger
  imports Model Contracts
begin

text \<open>
  Package \<open>watermark\<close> (\<open>internal/watermark/ledger.go\<close>) and the service's
  \<open>AdvanceWatermark\<close> (\<open>internal/service/service_new.go\<close>): the progress offset and generation
  of each subscriber.

  \<open>Advance\<close> holds the ledger's lock and is one step. \<open>Set\<close> takes no lock, so besides its
  sequential meaning it is modelled as the steps it consists of: the read with its check, the write
  of the offset and the write of the generation. \<open>wm_step\<close> lets one of several concurrent calls of
  \<open>AdvanceWatermark\<close> take its next step.
\<close>

record wmEntry =
  wm_Subscriber :: string
  wm_EOffset :: u64
  wm_EGeneration :: u64

record wmLedger =
  wm_offsets :: "(string, u64) gomap"
  wm_generations :: "(string, u64) gomap"
  wm_ordered :: "string list"

definition wm_New :: wmLedger where
  "wm_New = \<lparr>wm_offsets = mempty, wm_generations = mempty, wm_ordered = []\<rparr>"

definition wm_Advance :: "string \<Rightarrow> u64 \<Rightarrow> u64 \<Rightarrow> wmLedger \<Rightarrow> wmLedger \<times> error option" where
  "wm_Advance subscriber offset generation l =
     (let exists = mget (wm_offsets l) subscriber \<noteq> None;
          current = mgetd 0 (wm_offsets l) subscriber;
          currentGeneration = mgetd 0 (wm_generations l) subscriber
      in if exists \<and> offset < current then (l, Some ErrStaleOffset)
         else if exists \<and> generation < currentGeneration then (l, Some ErrStaleGeneration)
         else (\<lparr>wm_offsets = mput (wm_offsets l) subscriber offset,
                wm_generations = mput (wm_generations l) subscriber generation,
                wm_ordered = (if exists then wm_ordered l else wm_ordered l @ [subscriber])\<rparr>, None))"

text \<open>The steps of \<open>Set\<close>.\<close>

definition set_check :: "string \<Rightarrow> u64 \<Rightarrow> wmLedger \<Rightarrow> error option" where
  "set_check subscriber offset l =
     (case mget (wm_offsets l) subscriber of
        Some current \<Rightarrow> if offset < current then Some ErrStaleOffset else None
      | None \<Rightarrow> None)"

definition set_offset :: "string \<Rightarrow> u64 \<Rightarrow> wmLedger \<Rightarrow> wmLedger" where
  "set_offset subscriber offset l = l\<lparr>wm_offsets := mput (wm_offsets l) subscriber offset\<rparr>"

definition set_generation :: "string \<Rightarrow> u64 \<Rightarrow> wmLedger \<Rightarrow> wmLedger" where
  "set_generation subscriber generation l =
     l\<lparr>wm_generations := mput (wm_generations l) subscriber generation\<rparr>"

definition wm_Set :: "string \<Rightarrow> u64 \<Rightarrow> u64 \<Rightarrow> wmLedger \<Rightarrow> wmLedger \<times> error option" where
  "wm_Set subscriber offset generation l =
     (case set_check subscriber offset l of
        Some e \<Rightarrow> (l, Some e)
      | None \<Rightarrow> (set_generation subscriber generation (set_offset subscriber offset l), None))"

definition wm_Offset :: "string \<Rightarrow> wmLedger \<Rightarrow> u64 \<times> u64" where
  "wm_Offset subscriber l =
     (mgetd 0 (wm_offsets l) subscriber, mgetd 0 (wm_generations l) subscriber)"

definition wm_Snapshot :: "(string \<times> u64) list \<Rightarrow> wmLedger \<Rightarrow> wmEntry list" where
  "wm_Snapshot it l =
     map (\<lambda>(subscriber, offset). \<lparr>wm_Subscriber = subscriber, wm_EOffset = offset,
            wm_EGeneration = mgetd 0 (wm_generations l) subscriber\<rparr>) it"

text \<open>\<open>Service.AdvanceWatermark\<close>, alone.\<close>

definition AdvanceWatermark :: "string \<Rightarrow> u64 \<Rightarrow> u64 \<Rightarrow> wmLedger \<Rightarrow> wmLedger \<times> error option" where
  "AdvanceWatermark subscriber offset generation l =
     (let (_, currentGeneration) = wm_Offset subscriber l
      in if currentGeneration = generation then wm_Set subscriber offset generation l
         else wm_Advance subscriber offset generation l)"

lemmas wm_defs [step_defs] =
  wm_New_def wm_Advance_def wm_Set_def wm_Offset_def AdvanceWatermark_def
  set_check_def set_offset_def set_generation_def

section \<open>Concurrent calls\<close>

text \<open>Where a call of \<open>AdvanceWatermark\<close> is.\<close>

datatype wm_pc =
    AtOffset | AtAdvance | AtSet | AtSetOffset | AtSetGeneration | Returned "error option"

record wm_call =
  wc_subscriber :: string
  wc_offset :: u64
  wc_generation :: u64
  wc_pc :: wm_pc

fun wm_call_step :: "wm_call \<Rightarrow> wmLedger \<Rightarrow> wmLedger \<times> wm_pc" where
  "wm_call_step c l =
     (case wc_pc c of
        AtOffset \<Rightarrow> (l, if snd (wm_Offset (wc_subscriber c) l) = wc_generation c then AtSet else AtAdvance)
      | AtAdvance \<Rightarrow> (case wm_Advance (wc_subscriber c) (wc_offset c) (wc_generation c) l of
            (l', e) \<Rightarrow> (l', Returned e))
      | AtSet \<Rightarrow> (case set_check (wc_subscriber c) (wc_offset c) l of
            Some e \<Rightarrow> (l, Returned (Some e))
          | None \<Rightarrow> (l, AtSetOffset))
      | AtSetOffset \<Rightarrow> (set_offset (wc_subscriber c) (wc_offset c) l, AtSetGeneration)
      | AtSetGeneration \<Rightarrow> (set_generation (wc_subscriber c) (wc_generation c) l, Returned None)
      | Returned e \<Rightarrow> (l, Returned e))"

type_synonym wm_threads = "wmLedger \<times> wm_call list"

definition wm_step :: "nat \<Rightarrow> wm_threads \<Rightarrow> wm_threads" where
  "wm_step i st =
     (let (l, cs) = st in
      if i < length cs then
        let (l', pc) = wm_call_step (cs ! i) l in (l', cs[i := (cs ! i)\<lparr>wc_pc := pc\<rparr>])
      else st)"

definition wm_start :: "string \<Rightarrow> u64 \<Rightarrow> u64 \<Rightarrow> wm_call" where
  "wm_start subscriber offset generation =
     \<lparr>wc_subscriber = subscriber, wc_offset = offset, wc_generation = generation, wc_pc = AtOffset\<rparr>"

text \<open>A call that runs alone returns what the sequential definition says, after four steps.\<close>

lemma AdvanceWatermark_steps:
  "fold wm_step [0, 0, 0, 0] (l, [wm_start sub off g]) =
     (let (l', e) = AdvanceWatermark sub off g l in (l', [(wm_start sub off g)\<lparr>wc_pc := Returned e\<rparr>]))"
  by (cases "snd (wm_Offset sub l) = g"; cases "set_check sub off l")
    (simp_all add: wm_step_def wm_start_def AdvanceWatermark_def wm_Set_def Let_def split_beta)

section \<open>One call at a time\<close>

definition wm_mark :: "wmLedger \<Rightarrow> string \<Rightarrow> u64" where
  "wm_mark l subscriber = fst (wm_Offset subscriber l)"

definition wm_generation :: "wmLedger \<Rightarrow> string \<Rightarrow> u64" where
  "wm_generation l subscriber = snd (wm_Offset subscriber l)"

text \<open>
  A subscriber without an offset has no generation either; otherwise a generation could be read
  for a subscriber that \<open>Advance\<close> takes for new.
\<close>

definition wm_ok :: "wmLedger \<Rightarrow> bool" where
  "wm_ok l \<longleftrightarrow> (\<forall>k. mget (wm_offsets l) k = None \<longleftrightarrow> mget (wm_generations l) k = None)"

type_synonym wm_op = "string \<times> u64 \<times> u64"

fun wm_apply :: "wm_op \<Rightarrow> wmLedger \<Rightarrow> wmLedger" where
  "wm_apply (sub, off, g) l = fst (AdvanceWatermark sub off g l)"

interpretation wm: invariant_machine wm_New wm_apply wm_ok
proof
  fix l op assume "wm_ok l"
  then show "wm_ok (wm_apply op l)"
    by (cases op) (auto simp: wm_ok_def wm_defs Let_def gomap_simps split: option.splits)
qed (simp add: wm_ok_def wm_New_def)

interpretation wm_offset: monotone_store wm_apply wm_mark
  by unfold_locales
    (rename_tac l k op, case_tac op,
      auto simp: wm_mark_def wm_defs Let_def gomap_simps mgetd_def not_less split: option.splits)

lemma wm_generation_mono: "wm_ok l \<Longrightarrow> wm_generation l k \<le> wm_generation (wm_apply op l) k"
  by (cases op)
    (auto simp: wm_ok_def wm_generation_def wm_defs Let_def gomap_simps mgetd_def not_less
      split: option.splits)

lemma wm_generation_run: "wm_ok l \<Longrightarrow> wm_generation l k \<le> wm_generation (fold wm_apply ops l) k"
proof (induction ops arbitrary: l)
  case (Cons op ops)
  have "wm_generation l k \<le> wm_generation (wm_apply op l) k" by (rule wm_generation_mono [OF Cons.prems])
  also have "\<dots> \<le> wm_generation (fold wm_apply ops (wm_apply op l)) k"
    by (rule Cons.IH) (rule wm.inv_step [OF Cons.prems])
  finally show ?case by simp
qed simp

lemma wm_Set_spec:
  "wm_Set sub off g l = (l', e) \<Longrightarrow>
     (e = None \<longleftrightarrow> wm_mark l sub \<le> off)
   \<and> wm_Offset k l' = (if e = None \<and> k = sub then (off, g) else wm_Offset k l)"
  by (cases "mget (wm_offsets l) sub")
    (auto simp: wm_mark_def wm_defs mgetd_def gomap_simps not_less split: if_splits)

lemma wm_Advance_spec:
  assumes "wm_ok l" and "wm_Advance sub off g l = (l', e)"
  shows "(e = None \<longleftrightarrow> wm_mark l sub \<le> off \<and> wm_generation l sub \<le> g)
   \<and> wm_Offset k l' = (if e = None \<and> k = sub then (off, g) else wm_Offset k l)"
  using assms(2) assms(1) [unfolded wm_ok_def, THEN spec, of sub]
  by (cases "mget (wm_offsets l) sub"; cases "mget (wm_generations l) sub")
    (auto simp: wm_mark_def wm_generation_def wm_Advance_def wm_Offset_def Let_def gomap_simps not_less
      split: if_splits)

lemma AdvanceWatermark_spec:
  assumes "wm_ok l" and "AdvanceWatermark sub off g l = (l', e)"
  shows "(e = None \<longleftrightarrow> wm_mark l sub \<le> off \<and> wm_generation l sub \<le> g)
   \<and> wm_Offset k l' = (if e = None \<and> k = sub then (off, g) else wm_Offset k l)"
proof (cases "wm_generation l sub = g")
  case True
  then show ?thesis using assms(2) wm_Set_spec [of sub off g l l' e k]
    by (simp add: AdvanceWatermark_def wm_generation_def split_beta)
next
  case False
  then show ?thesis using assms(2) wm_Advance_spec [OF assms(1), of sub off g l' e k]
    by (simp add: AdvanceWatermark_def wm_generation_def split_beta)
qed

section \<open>Properties\<close>

text \<open>
  C37: called one at a time, \<open>AdvanceWatermark\<close> never moves a subscriber's offset or generation
  back, over any number of calls; a call succeeds exactly when neither would go back (an unknown
  subscriber accepts anything), then the subscriber is where the call put it, and a refused call
  changes nothing.
\<close>

theorem watermark_sequential_monotone:
  assumes "l = fold wm_apply ops wm_New" and "AdvanceWatermark sub off g l = (l', e)"
  shows "wm_mark l k \<le> wm_mark (fold wm_apply later l) k
    \<and> wm_generation l k \<le> wm_generation (fold wm_apply later l) k
    \<and> (e = None \<longleftrightarrow> wm_mark l sub \<le> off \<and> wm_generation l sub \<le> g)
    \<and> wm_Offset k l' = (if e = None \<and> k = sub then (off, g) else wm_Offset k l)"
proof -
  have ok: "wm_ok l" unfolding assms(1) by (rule wm.inv_reached)
  show ?thesis
    using wm_offset.run_mono wm_generation_run [OF ok] AdvanceWatermark_spec [OF ok assms(2)] by blast
qed

lemma watermark_sequential_witness:
  "snd (AdvanceWatermark ''m'' 4 1 (fold wm_apply [(''m'', 5, 1)] wm_New)) = Some ErrStaleOffset
   \<and> snd (AdvanceWatermark ''m'' 6 2 (fold wm_apply [(''m'', 5, 1)] wm_New)) = None"
proof -
  let ?l = "fold wm_apply [(''m'', 5, 1)] wm_New"
  let ?r = "AdvanceWatermark ''m'' 6 2 ?l"
  have "snd ?r = None"
    using watermark_sequential_monotone [OF refl, of "''m''" 6 2 "[(''m'', 5, 1)]" "fst ?r" "snd ?r"]
    by (simp add: wm_mark_def wm_generation_def wm_defs Let_def)
  then show ?thesis by (simp add: wm_defs Let_def)
qed

text \<open>
  Called concurrently, they can move both back. While a call on the fast path (same generation
  \<open>g\<close>) stands between its check and its write, another call advances the subscriber to a later
  generation and a higher offset through \<open>Advance\<close>, and returns without an error; the first call
  then writes its lower offset and the old generation over it and also returns without an error.
\<close>

theorem watermark_race_regresses:
  assumes "wm_Offset sub l = (o0, g)" and "mget (wm_offsets l) sub = Some o0"
    and "o0 \<le> a" and "a < b" and "g < g'"
  shows "\<exists>schedule l' c d.
      fold wm_step schedule (l, [wm_start sub a g, wm_start sub b g']) = (l', [c, d])
    \<and> wc_pc c = Returned None \<and> wc_pc d = Returned None
    \<and> wm_Offset sub (fst (fold wm_step (take 4 schedule) (l, [wm_start sub a g, wm_start sub b g']))) = (b, g')
    \<and> wm_Offset sub l' = (a, g)"
  using assms
  by (intro exI [of _ "[0, 0, 1, 1, 0, 0]"])
    (auto simp: wm_step_def wm_start_def wm_defs Let_def gomap_simps mgetd_def not_less)

lemma watermark_race_witness:
  "\<exists>schedule l' c d.
      fold wm_step schedule (fold wm_apply [(''m'', 5, 1)] wm_New, [wm_start ''m'' 7 1, wm_start ''m'' 10 2])
        = (l', [c, d])
    \<and> wc_pc c = Returned None \<and> wc_pc d = Returned None
    \<and> wm_Offset ''m'' l' = (7, 1)"
proof -
  let ?l = "fold wm_apply [(''m'', 5, 1)] wm_New"
  have "wm_Offset ''m'' ?l = (5, 1)" "mget (wm_offsets ?l) ''m'' = Some 5"
    by (simp_all add: wm_defs Let_def)
  from watermark_race_regresses [OF this, of 7 10 2] show ?thesis by fastforce
qed

end
