(* ===== verification/ServiceState.thy ===== *)
theory ServiceState
  imports Catalog Leases RetryQueue RestoreCursor Receipts Checkpoint ManifestStore PolicyEngine
    Telemetry ReplDispatcher Orchestrator MirrorLedger GcStore MigrationStore QuarantineStore
    WatermarkLedger
begin

text \<open>
  The service (\<open>internal/service/service.go\<close>, \<open>service_new.go\<close>): the record of its components
  and the operations that delegate to one of them or combine a few. The operations that make up the
  capture, verification, restore and retry workflows are in the next theory.

  The journal, the audit ledger and the registry of destinations are shared by pointer between the
  service, the dispatcher and the controller. The model keeps the one copy in the service;
  \<open>with_replication\<close> and \<open>with_orchestration\<close> put it into the component before a call and take
  it out after. The migration store is the one inside the runner. \<open>sv_nextID\<close> is the counter of
  package \<open>model\<close>. The sections of an operation that hold different locks run one after the
  other; \<open>ck i\<close> is the reading of the service's clock at the \<open>i\<close>-th place of the operation
  that reads it, \<open>host\<close> one of the host's clock.
\<close>

record Service =
  sv_catalog :: CatalogStore
  sv_journal :: Log
  sv_leases :: LeaseStore
  sv_retries :: Queue
  sv_cursors :: CursorStore
  sv_verifications :: ReceiptStore
  sv_checkpoints :: cpStore
  sv_manifests :: ManifestStore
  sv_policies :: Engine
  sv_audit :: Ledger
  sv_telemetry :: tRegistry
  sv_replication :: Dispatcher
  sv_destinations :: rRegistry
  sv_orchestration :: Controller
  sv_mirror :: MirrorLedger
  sv_gcStore :: GcStore
  sv_migration :: Runner
  sv_quarantine :: QuarantineStore
  sv_watermark :: wmLedger
  sv_orchestrationPolicies :: "(string, oPolicy) gomap"
  sv_replayGenerations :: "(string, u64) gomap"
  sv_generation :: u64
  sv_nextID :: u64

definition Service_New :: "int \<Rightarrow> u64 \<Rightarrow> Service" where
  "Service_New maxChunks nextID =
     \<lparr>sv_catalog = catalog_New maxChunks, sv_journal = journal_New, sv_leases = lease_New,
      sv_retries = retry_New, sv_cursors = restore_NewCursorStore, sv_verifications = verify_NewStore,
      sv_checkpoints = checkpoint_New, sv_manifests = manifest_New, sv_policies = policy_New,
      sv_audit = audit_New, sv_telemetry = telemetry_New 64,
      sv_replication = dispatcher_New registry_NewRegistry (budget_NewBudget (2 ^ 30))
        (Some journal_New) (Some audit_New),
      sv_destinations = registry_NewRegistry,
      sv_orchestration = controller_New runbook_New (Some journal_New) (Some audit_New),
      sv_mirror = mirror_New, sv_gcStore = gc_New,
      sv_migration = migration_NewRunner migration_NewStore, sv_quarantine = quarantine_New,
      sv_watermark = wm_New, sv_orchestrationPolicies = mempty, sv_replayGenerations = mempty,
      sv_generation = 0, sv_nextID = nextID\<rparr>"

definition with_replication :: "(Dispatcher \<Rightarrow> Dispatcher \<times> 'a) \<Rightarrow> Service \<Rightarrow> Service \<times> 'a" where
  "with_replication f s =
     (let d = (sv_replication s)\<lparr>di_registry := sv_destinations s, di_journal := Some (sv_journal s),
            di_audit := Some (sv_audit s)\<rparr>;
          (d', x) = f d
      in (s\<lparr>sv_replication := d', sv_destinations := di_registry d',
            sv_journal := (case di_journal d' of Some l \<Rightarrow> l | None \<Rightarrow> sv_journal s),
            sv_audit := (case di_audit d' of Some a \<Rightarrow> a | None \<Rightarrow> sv_audit s)\<rparr>, x))"

definition with_orchestration :: "(Controller \<Rightarrow> Controller \<times> 'a) \<Rightarrow> Service \<Rightarrow> Service \<times> 'a" where
  "with_orchestration f s =
     (let c = (sv_orchestration s)\<lparr>co_journal := Some (sv_journal s), co_audit := Some (sv_audit s)\<rparr>;
          (c', x) = f c
      in (s\<lparr>sv_orchestration := c',
            sv_journal := (case co_journal c' of Some l \<Rightarrow> l | None \<Rightarrow> sv_journal s),
            sv_audit := (case co_audit c' of Some a \<Rightarrow> a | None \<Rightarrow> sv_audit s)\<rparr>, x))"

text \<open>\<open>s.audit.Record(...)\<close> and \<open>s.journal.Append(...)\<close>.\<close>

definition svAudit :: "string \<Rightarrow> string \<Rightarrow> string \<Rightarrow> time \<Rightarrow> Service \<Rightarrow> Service" where
  "svAudit kind obj detail now s = s\<lparr>sv_audit := fst (audit_Record kind obj detail now (sv_audit s))\<rparr>"

definition svAppend :: "Entry \<Rightarrow> Service \<Rightarrow> Service \<times> error option" where
  "svAppend entry s =
     (case journal_Append entry (sv_journal s) of
        (l, Inl e) \<Rightarrow> (s\<lparr>sv_journal := l\<rparr>, Some e)
      | (l, Inr _) \<Rightarrow> (s\<lparr>sv_journal := l\<rparr>, None))"

definition newEntry :: "u64 \<Rightarrow> string \<Rightarrow> string \<Rightarrow> string \<Rightarrow> string \<Rightarrow> time \<Rightarrow> Entry" where
  "newEntry generation kind snapshotID operation detail recorded =
     \<lparr>j_Sequence = 0, j_Generation = generation, j_Kind = kind, j_SnapshotID = snapshotID,
      j_Operation = operation, j_Detail = detail, j_RecordedAt = recorded\<rparr>"

section \<open>Reading one component\<close>

definition Service_RestoreCursor :: "string \<Rightarrow> Service \<Rightarrow> int" where
  "Service_RestoreCursor pid s = restore_Cursor pid (sv_cursors s)"

definition Service_CloseJournal :: "Service \<Rightarrow> Service" where
  "Service_CloseJournal s = s\<lparr>sv_journal := journal_Close (sv_journal s)\<rparr>"

definition Service_OpenJournal :: "Service \<Rightarrow> Service" where
  "Service_OpenJournal s = s\<lparr>sv_journal := journal_Open (sv_journal s)\<rparr>"

definition Service_Snapshot :: "string \<Rightarrow> Service \<Rightarrow> Snapshot option" where
  "Service_Snapshot i s = catalog_Snapshot i (sv_catalog s)"

definition Service_Receipt :: "string \<Rightarrow> Service \<Rightarrow> VerificationReceipt option" where
  "Service_Receipt i s = verify_Receipt i (sv_verifications s)"

definition Service_RetryPending :: "string \<Rightarrow> Service \<Rightarrow> nat" where
  "Service_RetryPending snapshotID s = retry_Pending snapshotID (sv_retries s)"

definition Service_JournalEntries :: "Service \<Rightarrow> Entry list" where
  "Service_JournalEntries s = journal_Entries (sv_journal s)"

definition Service_Lease :: "string \<Rightarrow> Service \<Rightarrow> Lease option" where
  "Service_Lease resource s = lease_Lease resource (sv_leases s)"

definition Service_ManifestPayload :: "string \<Rightarrow> Service \<Rightarrow> bytes option" where
  "Service_ManifestPayload snapshotID s = manifest_Payload snapshotID (sv_manifests s)"

definition Service_Checkpoint :: "string \<Rightarrow> Service \<Rightarrow> cpRecord option" where
  "Service_Checkpoint snapshotID s = checkpoint_Get snapshotID (sv_checkpoints s)"

definition Service_CheckpointHistory :: "string \<Rightarrow> Service \<Rightarrow> cpState list" where
  "Service_CheckpointHistory snapshotID s = checkpoint_History snapshotID (sv_checkpoints s)"

definition Service_AuditEvents :: "Service \<Rightarrow> Event list" where
  "Service_AuditEvents s = audit_Events (sv_audit s)"

definition Service_VerifyAudit :: "Service \<Rightarrow> error option" where
  "Service_VerifyAudit s = audit_Verify (sv_audit s)"

definition Service_AuditEventsFor :: "string \<Rightarrow> Service \<Rightarrow> Event list" where
  "Service_AuditEventsFor snapshotID s = audit_EventsFor snapshotID (sv_audit s)"

definition Service_Health :: "time \<Rightarrow> Service \<Rightarrow> Health" where
  "Service_Health now s = telemetry_HealthSnapshot now (sv_telemetry s)"

definition Service_HealthJSON :: "(Health \<Rightarrow> bytes result) \<Rightarrow> time \<Rightarrow> Service \<Rightarrow> bytes result" where
  "Service_HealthJSON marshal now s = telemetry_MarshalHealth marshal (Service_Health now s)"

definition Service_OperationCount :: "string \<Rightarrow> Service \<Rightarrow> u64" where
  "Service_OperationCount name s = telemetry_Count name (sv_telemetry s)"

definition Service_TelemetryEvents :: "Service \<Rightarrow> tEvent list" where
  "Service_TelemetryEvents s = telemetry_Events (sv_telemetry s)"

definition Service_CaptureFailureCount :: "string \<Rightarrow> Service \<Rightarrow> u64" where
  "Service_CaptureFailureCount name s = telemetry_FailureCount name (sv_telemetry s)"

definition Service_RetentionPolicy :: "Service \<Rightarrow> Retention" where
  "Service_RetentionPolicy s = policy_RetentionPolicy (sv_policies s)"

definition Service_RetryPolicy :: "Service \<Rightarrow> Retry" where
  "Service_RetryPolicy s = policy_RetryPolicy (sv_policies s)"

definition Service_NextRetry :: "RetryTask \<Rightarrow> time \<Rightarrow> Service \<Rightarrow> time result" where
  "Service_NextRetry task now s = policy_NextRetry task now (sv_policies s)"

section \<open>Manifests\<close>

definition Service_MaterializeManifest ::
  "marshal \<Rightarrow> clock \<Rightarrow> string \<Rightarrow> Service \<Rightarrow> Service \<times> Envelope result" where
  "Service_MaterializeManifest marshal ck snapshotID s =
     (case catalog_Snapshot snapshotID (sv_catalog s) of
        None \<Rightarrow> (s, Inl ErrNotFound)
      | Some snapshot \<Rightarrow>
     (case manifest_Publish marshal snapshot (ck 0) (sv_manifests s) of
        (m, Inl e) \<Rightarrow> (s\<lparr>sv_manifests := m\<rparr>, Inl e)
      | (m, Inr envelope) \<Rightarrow>
          let s1 = s\<lparr>sv_manifests := m\<rparr>;
              gen = s_Generation snapshot; n = int (length (s_Chunks snapshot)); dg = env_Digest envelope;
              cp1 = (if checkpoint_Get (s_ID snapshot) (sv_checkpoints s1) \<noteq> None
                     then (sv_checkpoints s1, None)
                     else case checkpoint_Start (s_ID snapshot) (s_Operation snapshot) gen (ck 1)
                                 (sv_checkpoints s1) of
                       (c, Inl e) \<Rightarrow> (c, Some e)
                     | (c, Inr _) \<Rightarrow>
                         (case checkpoint_Advance (s_ID snapshot) gen Staged n dg (ck 2) c of
                            (c, Inl e) \<Rightarrow> (c, Some e)
                          | (c, Inr _) \<Rightarrow>
                              (case checkpoint_Advance (s_ID snapshot) gen Published n dg (ck 3) c of
                                 (c, Inl e) \<Rightarrow> (c, Some e)
                               | (c, Inr _) \<Rightarrow> (c, None))))
          in case cp1 of
               (c, Some e) \<Rightarrow> (s1\<lparr>sv_checkpoints := c\<rparr>, Inl e)
             | (c, None) \<Rightarrow>
                 let cp2 = (if s_State snapshot = SnapshotVerified
                              \<and> (case checkpoint_Get (s_ID snapshot) c of
                                   Some record \<Rightarrow> cp_State record = Published | None \<Rightarrow> False)
                            then case checkpoint_Advance (s_ID snapshot) gen Verified n dg (ck 4) c of
                                   (c, Inl e) \<Rightarrow> (c, Some e)
                                 | (c, Inr _) \<Rightarrow> (c, None)
                            else (c, None))
                 in (case cp2 of
                       (c, Some e) \<Rightarrow> (s1\<lparr>sv_checkpoints := c\<rparr>, Inl e)
                     | (c, None) \<Rightarrow>
                         (svAudit ''manifest-published'' (s_ID snapshot) dg (ck 5)
                            (s1\<lparr>sv_checkpoints := c\<rparr>), Inr envelope))))"

definition Service_VerifyMaterializedManifest :: "clock \<Rightarrow> string \<Rightarrow> Service \<Rightarrow> Service \<times> error option" where
  "Service_VerifyMaterializedManifest ck snapshotID s =
     (case manifest_Verify snapshotID (sv_manifests s) of
        Some e \<Rightarrow> (s, Some e)
      | None \<Rightarrow> (svAudit ''manifest-verified'' snapshotID ''payload digest matched'' (ck 0) s, None))"

section \<open>Replication\<close>

definition Service_RegisterReplicationDestination :: "time \<Rightarrow> Destination \<Rightarrow> Service \<Rightarrow> Service \<times> bool" where
  "Service_RegisterReplicationDestination host destination s =
     (let (r, ok) = registry_Register host destination (sv_destinations s)
      in (s\<lparr>sv_destinations := r\<rparr>, ok))"

definition Service_ReplicationDestinations :: "Service \<Rightarrow> Destination list" where
  "Service_ReplicationDestinations s = registry_Snapshot (sv_destinations s)"

definition Service_PlanReplication :: "clock \<Rightarrow> string \<Rightarrow> Service \<Rightarrow> Service \<times> Plan \<times> error option" where
  "Service_PlanReplication ck snapshotID s =
     (case catalog_Snapshot snapshotID (sv_catalog s) of
        None \<Rightarrow> (s, zeroPlan, Some ErrNotFound)
      | Some snapshot \<Rightarrow> with_replication (dispatcher_PlanSnapshot ck snapshot) s)"

definition Service_CompleteReplication :: "clock \<Rightarrow> Plan \<Rightarrow> bool \<Rightarrow> Service \<Rightarrow> Service" where
  "Service_CompleteReplication ck plan succeeded s =
     fst (with_replication (\<lambda>d. (dispatcher_Complete ck plan succeeded d, ())) s)"

definition Service_ReplicationBudgetUsed :: "Service \<Rightarrow> int" where
  "Service_ReplicationBudgetUsed s = dispatcher_BudgetUsed (sv_replication s)"

definition Service_ReplicationOutcomes :: "time \<Rightarrow> Service \<Rightarrow> Service \<times> rOutcome list" where
  "Service_ReplicationOutcomes now s = with_replication (dispatcher_Outcomes now) s"

definition Service_ReplicationStatus :: "Service \<Rightarrow> int \<times> nat" where
  "Service_ReplicationStatus s = dispatcher_Status (sv_replication s)"

definition Service_ReplicationOutcomeSummary :: "time \<Rightarrow> Service \<Rightarrow> Service \<times> nat \<times> nat \<times> nat" where
  "Service_ReplicationOutcomeSummary now s = with_replication (dispatcher_OutcomeSummary now) s"

section \<open>Orchestration\<close>

text \<open>The function that \<open>New\<close> gives to the runbook.\<close>

definition concurrencyLimit :: "Service \<Rightarrow> string \<Rightarrow> int" where
  "concurrencyLimit s policyID =
     (case mget (sv_orchestrationPolicies s) policyID of None \<Rightarrow> 1 | Some p \<Rightarrow> po_MaxConcurrent p)"

definition Service_RegisterOrchestrationPolicy :: "oPolicy \<Rightarrow> Service \<Rightarrow> Service \<times> bool" where
  "Service_RegisterOrchestrationPolicy p s =
     (case orchestrator_Validate p of
        Some e \<Rightarrow> (s, False)
      | None \<Rightarrow> (s\<lparr>sv_orchestrationPolicies := mput (sv_orchestrationPolicies s) (po_ID p) p\<rparr>, True))"

definition Service_OrchestrationPolicies :: "(string \<times> oPolicy) list \<Rightarrow> oPolicy list" where
  "Service_OrchestrationPolicies it = map snd it"

definition Service_OrchestrationPolicy :: "string \<Rightarrow> Service \<Rightarrow> oPolicy option" where
  "Service_OrchestrationPolicy policyID s = mget (sv_orchestrationPolicies s) policyID"

definition Service_NextScheduledRun :: "tzdata \<Rightarrow> clock \<Rightarrow> string \<Rightarrow> Service \<Rightarrow> time result" where
  "Service_NextScheduledRun tz ck policyID s =
     (case Service_OrchestrationPolicy policyID s of
        None \<Rightarrow> Inl ErrNotFound
      | Some p \<Rightarrow> controller_Scheduled tz p (runbook_Last policyID (co_runbook (sv_orchestration s))) (ck 0))"

definition Service_RunScheduledJob ::
  "tzdata \<Rightarrow> clock \<Rightarrow> string \<Rightarrow> string \<Rightarrow> Service \<Rightarrow> Service \<times> error option" where
  "Service_RunScheduledJob tz ck policyID snapshotID s =
     (case Service_OrchestrationPolicy policyID s of
        None \<Rightarrow> (s, Some ErrNotFound)
      | Some p \<Rightarrow> with_orchestration (controller_Execute tz ck (concurrencyLimit s) p snapshotID) s)"

definition Service_OrchestrationOutcomes :: "time \<Rightarrow> Service \<Rightarrow> Service \<times> oOutcome list" where
  "Service_OrchestrationOutcomes now s = with_orchestration (controller_Outcomes now) s"

definition Service_OrchestrationRuns :: "(string \<times> oRun) list \<Rightarrow> string \<Rightarrow> oRun list" where
  "Service_OrchestrationRuns it policyID = runbook_Runs it policyID"

definition Service_OrchestrationFailureRate :: "time \<Rightarrow> Service \<Rightarrow> Service \<times> rat" where
  "Service_OrchestrationFailureRate now s = with_orchestration (controller_FailureRate now) s"

definition Service_OrchestrationRunbookTotal :: "Service \<Rightarrow> nat" where
  "Service_OrchestrationRunbookTotal s = runbook_Total (co_runbook (sv_orchestration s))"

section \<open>Watermarks, mirrors, garbage collection\<close>

definition Service_AdvanceWatermark :: "string \<Rightarrow> u64 \<Rightarrow> u64 \<Rightarrow> Service \<Rightarrow> Service \<times> error option" where
  "Service_AdvanceWatermark subscriber offset generation s =
     (let (w, e) = AdvanceWatermark subscriber offset generation (sv_watermark s)
      in (s\<lparr>sv_watermark := w\<rparr>, e))"

definition Service_WatermarkOffset :: "string \<Rightarrow> Service \<Rightarrow> u64 \<times> u64" where
  "Service_WatermarkOffset subscriber s = wm_Offset subscriber (sv_watermark s)"

definition Service_Watermarks :: "(string \<times> u64) list \<Rightarrow> Service \<Rightarrow> wmEntry list" where
  "Service_Watermarks it s = wm_Snapshot it (sv_watermark s)"

definition Service_RegisterMirrorSite :: "string \<Rightarrow> Service \<Rightarrow> Service \<times> bool" where
  "Service_RegisterMirrorSite site s =
     (let (m, ok) = mirror_Register site (sv_mirror s) in (s\<lparr>sv_mirror := m\<rparr>, ok))"

definition Service_MirrorSites :: "Service \<Rightarrow> string list" where
  "Service_MirrorSites s = mirror_Sites (sv_mirror s)"

definition Service_MirrorRecords :: "Service \<Rightarrow> SiteRecord list" where
  "Service_MirrorRecords s = mirror_Snapshot (sv_mirror s)"

definition Service_ApplyMirrorUpdate ::
  "clock \<Rightarrow> string \<Rightarrow> Snapshot \<Rightarrow> Service \<Rightarrow> Service \<times> error option" where
  "Service_ApplyMirrorUpdate ck site snapshot s =
     (let local = catalog_Snapshot (s_ID snapshot) (sv_catalog s) in
      case mirror_Apply site snapshot local (ck 0) (sv_mirror s) of
        (m, Some e) \<Rightarrow> (s\<lparr>sv_mirror := m\<rparr>, Some e)
      | (m, None) \<Rightarrow> (svAudit ''mirror-applied'' (s_ID snapshot) site (ck 1) (s\<lparr>sv_mirror := m\<rparr>), None))"

definition Service_GcPin :: "string \<Rightarrow> Service \<Rightarrow> Service" where
  "Service_GcPin snapshotID s = s\<lparr>sv_gcStore := gc_Pin snapshotID (sv_gcStore s)\<rparr>"

definition Service_GcUnpin :: "string \<Rightarrow> Service \<Rightarrow> Service" where
  "Service_GcUnpin snapshotID s = s\<lparr>sv_gcStore := gc_Unpin snapshotID (sv_gcStore s)\<rparr>"

definition Service_GcPinned :: "string \<Rightarrow> Service \<Rightarrow> bool" where
  "Service_GcPinned snapshotID s = gc_Pinned snapshotID (sv_gcStore s)"

definition Service_GcAddRef :: "string \<Rightarrow> int \<Rightarrow> Service \<Rightarrow> Service" where
  "Service_GcAddRef digest n s = s\<lparr>sv_gcStore := gc_AddRef digest n (sv_gcStore s)\<rparr>"

definition Service_GcReleaseRef :: "string \<Rightarrow> int \<Rightarrow> Service \<Rightarrow> Service" where
  "Service_GcReleaseRef digest n s = s\<lparr>sv_gcStore := gc_ReleaseRef digest n (sv_gcStore s)\<rparr>"

definition Service_GcRefcount :: "string \<Rightarrow> Service \<Rightarrow> int" where
  "Service_GcRefcount digest s = gc_Refcount digest (sv_gcStore s)"

definition Service_GcCompact :: "Service \<Rightarrow> string list" where
  "Service_GcCompact s = gc_Compact (sv_gcStore s)"

text \<open>
  \<open>gcSnapshotIDs\<close>: the map of ids is built in this order; the \<open>range\<close> over it may visit the ids
  in any order, \<open>ids\<close>, which \<open>gc_id_order\<close> constrains.
\<close>

definition gcIDs :: "Service \<Rightarrow> (string, unit) gomap" where
  "gcIDs s =
     fold (\<lambda>event m. if j_SnapshotID event \<noteq> [] then mput m (j_SnapshotID event) () else m)
       (journal_Entries (sv_journal s))
       (fold (\<lambda>record m. mput m (sr_SnapshotID record) ()) (mirror_Snapshot (sv_mirror s)) mempty)"

definition gc_id_order :: "string list \<Rightarrow> Service \<Rightarrow> bool" where
  "gc_id_order ids s \<longleftrightarrow> mset ids = mset (mkeys (gcIDs s))"

definition Service_GcCollect :: "string list \<Rightarrow> time \<Rightarrow> duration \<Rightarrow> Service \<Rightarrow> Service \<times> string list" where
  "Service_GcCollect ids now keepWindow s =
     (let g = fold (\<lambda>record. gc_Pin (sr_SnapshotID record)) (mirror_Snapshot (sv_mirror s)) (sv_gcStore s);
          snapshots = List.map_filter (\<lambda>i. catalog_Snapshot i (sv_catalog s)) ids
      in (s\<lparr>sv_gcStore := g\<rparr>,
          gc_Collect now snapshots keepWindow (\<lambda>i. catalog_HasRestoreRef i (sv_catalog s)) g))"

section \<open>Migration and quarantine\<close>

definition Service_MigrateManifest ::
  "error option \<Rightarrow> clock \<Rightarrow> string \<Rightarrow> u64 \<Rightarrow> u64 \<Rightarrow> Service \<Rightarrow> Service \<times> error option" where
  "Service_MigrateManifest ctxErr ck snapshotID from to s =
     (case migration_Migrate ctxErr snapshotID from to (sv_migration s) of
        (r, Some e) \<Rightarrow> (s\<lparr>sv_migration := r\<rparr>, Some e)
      | (r, None) \<Rightarrow>
          (case svAppend (newEntry to ''migration'' snapshotID ''migrate-manifest'' ''schema migrated'' zeroTime)
                  (s\<lparr>sv_migration := r\<rparr>) of
             (s1, Some e) \<Rightarrow> (s1, Some e)
           | (s1, None) \<Rightarrow> (svAudit ''manifest-migrated'' snapshotID ''schema'' (ck 0) s1, None)))"

definition Service_MigrationVersion :: "string \<Rightarrow> Service \<Rightarrow> u64" where
  "Service_MigrationVersion snapshotID s = migration_Version snapshotID (run_store (sv_migration s))"

definition Service_Migrated :: "string \<Rightarrow> Service \<Rightarrow> bool" where
  "Service_Migrated snapshotID s = migration_Migrated snapshotID (sv_migration s)"

definition Service_QuarantineChunk :: "clock \<Rightarrow> string \<Rightarrow> string \<Rightarrow> Service \<Rightarrow> Service \<times> error option" where
  "Service_QuarantineChunk ck digest reason s =
     (case svAppend (newEntry 0 ''quarantine-admit'' digest ''quarantine'' reason zeroTime) s of
        (s1, Some e) \<Rightarrow> (s1, Some e)
      | (s1, None) \<Rightarrow>
          (case quarantine_Admit digest reason (ck 0) (sv_quarantine s1) of
             (q, Some e) \<Rightarrow> (s1\<lparr>sv_quarantine := q\<rparr>, Some e)
           | (q, None) \<Rightarrow>
               (svAudit ''chunk-quarantined'' digest reason (ck 1) (s1\<lparr>sv_quarantine := q\<rparr>), None)))"

definition Service_ReverifyChunk ::
  "clock \<Rightarrow> string \<Rightarrow> bool \<Rightarrow> error option \<Rightarrow> Service \<Rightarrow> Service \<times> error option" where
  "Service_ReverifyChunk ck digest matches verifyErr s =
     (let (q, e) = quarantine_Reverify digest matches verifyErr (ck 0) (sv_quarantine s)
      in (s\<lparr>sv_quarantine := q\<rparr>, e))"

definition Service_QuarantineEntry :: "string \<Rightarrow> Service \<Rightarrow> qEntry option" where
  "Service_QuarantineEntry digest s = quarantine_Entry digest (sv_quarantine s)"

definition Service_QuarantineClear :: "string \<Rightarrow> Service \<Rightarrow> Service \<times> bool" where
  "Service_QuarantineClear digest s =
     (let (q, ok) = quarantine_Clear digest (sv_quarantine s) in (s\<lparr>sv_quarantine := q\<rparr>, ok))"

end
