(* ===== verification/ServiceFlow.thy ===== *)
theory ServiceFlow
  imports ServiceState
begin

text \<open>
  The workflows of the service: capture (\<open>internal/service/capture.go\<close>), verification
  (\<open>verify.go\<close>), restore, retention, rollback and replay (\<open>restore.go\<close>), and the retry worker
  (\<open>worker.go\<close>).

  \<open>ctxErr\<close> is \<open>ctx.Err()\<close>. The text that \<open>cmp.Diff\<close> of the vendored package \<open>go-cmp\<close>
  makes of two sets of metadata is an argument \<open>diff\<close>; it only goes into the detail of a journal
  entry. The sender of the retry worker is an argument that also says what else happened to the
  service while it ran.
\<close>

section \<open>Capture\<close>

definition captureResource :: "string \<Rightarrow> string" where
  "captureResource snapshotID = ''capture:'' @ snapshotID"

definition Service_BeginCapture ::
  "error option \<Rightarrow> clock \<Rightarrow> string \<Rightarrow> string \<Rightarrow> duration \<Rightarrow> Service \<Rightarrow> Service \<times> CaptureHandle result" where
  "Service_BeginCapture ctxErr ck snapshotID owner ttl s =
     (case ctxErr of
        Some e \<Rightarrow> (s, Inl e)
      | None \<Rightarrow>
          if snapshotID = [] \<or> owner = [] \<or> ttl \<le> 0 then (s, Inl ErrConflict)
          else (case lease_Acquire (captureResource snapshotID) owner (ck 0) ttl (sv_leases s) of
            (ls, Inl e) \<Rightarrow> (s\<lparr>sv_leases := ls\<rparr>, Inl e)
          | (ls, Inr acquired) \<Rightarrow>
              let (nextID, op) = NewID ''capture'' (sv_nextID s);
                  gen = sv_generation s + 1
              in (s\<lparr>sv_leases := ls, sv_nextID := nextID, sv_generation := gen\<rparr>,
                  Inr \<lparr>h_Operation = op, h_SnapshotID = snapshotID, h_Owner = owner,
                       h_LeaseEpoch = l_Epoch acquired, h_Generation = gen\<rparr>)))"

definition Service_StageChunk ::
  "clock \<Rightarrow> CaptureHandle \<Rightarrow> int \<Rightarrow> bytes \<Rightarrow> Service \<Rightarrow> Service \<times> error option" where
  "Service_StageChunk ck handle index data s =
     (case lease_Validate (captureResource (h_SnapshotID handle)) (h_Owner handle) (h_LeaseEpoch handle) (ck 0)
             (sv_leases s) of
        Some e \<Rightarrow> (s, Some e)
      | None \<Rightarrow>
          let digest = sumHex data in
          (case catalog_ReserveDigest (h_Operation handle) digest (sv_catalog s) of
             (c, Some e) \<Rightarrow> (s\<lparr>sv_catalog := c\<rparr>, Some e)
           | (c, None) \<Rightarrow>
               let chunk = \<lparr>c_Index = index, c_Digest = digest, c_Data = data\<rparr> in
               (case catalog_StageChunk (h_Operation handle) chunk c of
                  (c', Some e) \<Rightarrow>
                    (s\<lparr>sv_catalog := catalog_ReleaseDigest (h_Operation handle) digest c'\<rparr>, Some e)
                | (c', None) \<Rightarrow> (s\<lparr>sv_catalog := c'\<rparr>, None))))"

definition observeCapture :: "time \<Rightarrow> time \<Rightarrow> string \<Rightarrow> time \<Rightarrow> bool \<Rightarrow> Service \<Rightarrow> Service" where
  "observeCapture host now snapshotID started succeeded s =
     s\<lparr>sv_telemetry := telemetry_Observe host ''capture.commit'' snapshotID started succeeded now (sv_telemetry s)\<rparr>"

definition cloneMetadata :: "(string, string) gomap \<Rightarrow> (string, string) gomap" where
  "cloneMetadata values = fold (\<lambda>(key, val) m. mput m key val) (entries values) mempty"

definition zeroSnapshot :: Snapshot where
  "zeroSnapshot = \<lparr>s_ID = [], s_BaseID = [], s_Operation = [], s_Generation = 0, s_Full = False,
     s_State = SnapshotOther [], s_Metadata = mempty, s_Chunks = [], s_CreatedAt = zeroTime\<rparr>"

text \<open>What \<open>CommitCapture\<close> undoes where it fails after the lease was validated.\<close>

definition commit_failed :: "CaptureHandle \<Rightarrow> Service \<Rightarrow> Service" where
  "commit_failed handle s =
     s\<lparr>sv_catalog := catalog_ForgetOperation (h_Operation handle) (sv_catalog s),
       sv_leases := fst (lease_Release (captureResource (h_SnapshotID handle)) (h_Owner handle)
         (h_LeaseEpoch handle) (sv_leases s))\<rparr>"

definition commit_body ::
  "((string, string) gomap \<Rightarrow> (string, string) gomap \<Rightarrow> string) \<Rightarrow> clock \<Rightarrow> CaptureHandle \<Rightarrow> string \<Rightarrow>
   bool \<Rightarrow> (string, string) gomap \<Rightarrow> Service \<Rightarrow> Service \<times> Snapshot result" where
  "commit_body diff ck handle baseID full metadata s =
     (let resource = captureResource (h_SnapshotID handle) in
      case lease_Validate resource (h_Owner handle) (h_LeaseEpoch handle) (ck 1) (sv_leases s) of
        Some e \<Rightarrow> (s, Inl e)
      | None \<Rightarrow>
          let now = ck 2;
              detail = (case catalog_Snapshot baseID (sv_catalog s) of
                          Some base \<Rightarrow> diff (s_Metadata base) metadata
                        | None \<Rightarrow> ''initial snapshot'');
              entry = newEntry (h_Generation handle) ''publish'' (h_SnapshotID handle) (h_Operation handle)
                detail now
          in (case svAppend entry s of
                (s1, Some e) \<Rightarrow> (commit_failed handle s1, Inl e)
              | (s1, None) \<Rightarrow>
                  let snapshot = \<lparr>s_ID = h_SnapshotID handle, s_BaseID = baseID,
                        s_Operation = h_Operation handle, s_Generation = h_Generation handle,
                        s_Full = full, s_State = SnapshotStaged, s_Metadata = cloneMetadata metadata,
                        s_Chunks = [], s_CreatedAt = now\<rparr>
                  in (case catalog_CommitSnapshot snapshot (sv_catalog s1) of
                        (c, Some e) \<Rightarrow> (commit_failed handle (s1\<lparr>sv_catalog := c\<rparr>), Inl e)
                      | (c, None) \<Rightarrow>
                          (case lease_Release resource (h_Owner handle) (h_LeaseEpoch handle) (sv_leases s1) of
                             (ls, Some e) \<Rightarrow> (s1\<lparr>sv_catalog := c, sv_leases := ls\<rparr>, Inl e)
                           | (ls, None) \<Rightarrow>
                               (s1\<lparr>sv_catalog := c, sv_leases := ls\<rparr>,
                                (case catalog_Snapshot (h_SnapshotID handle) c of
                                   Some committed \<Rightarrow> Inr committed
                                 | None \<Rightarrow> Inr zeroSnapshot))))))"

text \<open>
  The committed snapshot is read back from the catalog, where it was just stored. The deferred
  observation runs on every path.
\<close>

definition Service_CommitCapture ::
  "((string, string) gomap \<Rightarrow> (string, string) gomap \<Rightarrow> string) \<Rightarrow> time \<Rightarrow> clock \<Rightarrow> CaptureHandle \<Rightarrow> string \<Rightarrow>
   bool \<Rightarrow> (string, string) gomap \<Rightarrow> Service \<Rightarrow> Service \<times> Snapshot result" where
  "Service_CommitCapture diff host ck handle baseID full metadata s =
     (let started = ck 0;
          (s1, res) = commit_body diff ck handle baseID full metadata s;
          succeeded = (case res of Inr _ \<Rightarrow> True | Inl _ \<Rightarrow> False)
      in (observeCapture host (ck 3) (h_SnapshotID handle) started succeeded s1, res))"

definition Service_AbortCapture :: "CaptureHandle \<Rightarrow> Service \<Rightarrow> Service \<times> error option" where
  "Service_AbortCapture handle s =
     (let (ls, e) = lease_Release (captureResource (h_SnapshotID handle)) (h_Owner handle) (h_LeaseEpoch handle)
            (sv_leases s)
      in (s\<lparr>sv_catalog := catalog_ForgetOperation (h_Operation handle) (sv_catalog s), sv_leases := ls\<rparr>, e))"

section \<open>Verification\<close>

definition commitVerification ::
  "clock \<Rightarrow> Snapshot \<Rightarrow> VerificationReceipt \<Rightarrow> string \<Rightarrow> Service \<Rightarrow> Service \<times> error option" where
  "commitVerification ck snapshot receipt digest s =
     (case svAppend (newEntry (s_Generation snapshot) ''verify'' (s_ID snapshot) (s_Operation snapshot) digest
             (ck 1)) s of
        (s1, Some e) \<Rightarrow> (s1, Some e)
      | (s1, None) \<Rightarrow>
          (case catalog_SetState (s_ID snapshot) (s_Generation snapshot) SnapshotVerified (sv_catalog s1) of
             (c, Some e) \<Rightarrow>
               (s1\<lparr>sv_catalog := c,
                   sv_verifications := verify_Delete (s_ID snapshot) (s_Generation snapshot) (sv_verifications s1)\<rparr>,
                Some e)
           | (c, None) \<Rightarrow>
               (s1\<lparr>sv_catalog := c, sv_verifications := verify_Commit receipt (sv_verifications s1)\<rparr>, None)))"

definition Service_VerifySnapshot :: "clock \<Rightarrow> string \<Rightarrow> Service \<Rightarrow> Service \<times> VerificationReceipt result" where
  "Service_VerifySnapshot ck snapshotID s =
     (case catalog_Snapshot snapshotID (sv_catalog s) of
        None \<Rightarrow> (s, Inl ErrNotFound)
      | Some snapshot \<Rightarrow>
          if s_State snapshot \<noteq> SnapshotPublished then (s, Inl ErrInvalidTransition)
          else let digest = verify_Digest snapshot;
                   receipt = verify_Prepare snapshot digest (ck 0)
               in (case commitVerification ck snapshot receipt digest s of
                     (s1, Some e) \<Rightarrow> (s1, Inl e)
                   | (s1, None) \<Rightarrow> (s1, Inr receipt)))"

section \<open>Restore, retention, rollback, replay\<close>

definition restoreResource :: "string \<Rightarrow> string" where
  "restoreResource snapshotID = ''restore:'' @ snapshotID"

definition Service_BeginRestore ::
  "clock \<Rightarrow> string \<Rightarrow> string \<Rightarrow> duration \<Rightarrow> Service \<Rightarrow> Service \<times> RestorePlan result" where
  "Service_BeginRestore ck snapshotID owner ttl s =
     (case catalog_Snapshot snapshotID (sv_catalog s) of
        None \<Rightarrow> (s, Inl ErrNotFound)
      | Some snapshot \<Rightarrow>
          let (nextID, pid) = NewID ''restore'' (sv_nextID s);
              resource = restoreResource snapshotID;
              s1 = s\<lparr>sv_nextID := nextID\<rparr>
          in (case lease_Acquire resource owner (ck 0) ttl (sv_leases s1) of
                (ls, Inl e) \<Rightarrow> (s1\<lparr>sv_leases := ls\<rparr>, Inl e)
              | (ls, Inr _) \<Rightarrow>
                  (case restore_Build snapshot pid of
                     Inl e \<Rightarrow>
                       let epoch = (case lease_Lease resource ls of Some l \<Rightarrow> l_Epoch l | None \<Rightarrow> 0)
                       in (s1\<lparr>sv_leases := fst (lease_Release resource owner epoch ls)\<rparr>, Inl e)
                   | Inr plan \<Rightarrow>
                       (s1\<lparr>sv_leases := ls,
                           sv_catalog := catalog_AddRestoreReference (p_ID plan) snapshotID (sv_catalog s1)\<rparr>,
                        Inr plan))))"

definition Service_AdvanceRestore :: "RestorePlan \<Rightarrow> int list \<Rightarrow> Service \<Rightarrow> Service \<times> RestorePlan" where
  "Service_AdvanceRestore plan received s =
     (let (cs, cursor) = restore_AdvanceContiguous (p_ID plan) received (sv_cursors s)
      in (s\<lparr>sv_cursors := cs\<rparr>, plan\<lparr>p_Cursor := cursor\<rparr>))"

definition Service_FinishRestore :: "clock \<Rightarrow> RestorePlan \<Rightarrow> string \<Rightarrow> Service \<Rightarrow> Service \<times> error option" where
  "Service_FinishRestore ck plan owner s =
     (let resource = restoreResource (p_SnapshotID plan) in
      case lease_Lease resource (sv_leases s) of
        None \<Rightarrow> (s, Some ErrNotFound)
      | Some active \<Rightarrow>
          (case svAppend (newEntry (l_Epoch active) ''restore-complete'' (p_SnapshotID plan) (p_ID plan) [] (ck 0)) s of
             (s1, Some e) \<Rightarrow> (s1, Some e)
           | (s1, None) \<Rightarrow>
               (case lease_Release resource owner (l_Epoch active) (sv_leases s1) of
                  (ls, Some e) \<Rightarrow> (s1\<lparr>sv_leases := ls\<rparr>, Some e)
                | (ls, None) \<Rightarrow>
                    (case catalog_RemoveRestoreReference (p_ID plan) (p_SnapshotID plan) (sv_catalog s1) of
                       (c, False) \<Rightarrow> (s1\<lparr>sv_leases := ls, sv_catalog := c\<rparr>, Some ErrNotFound)
                     | (c, True) \<Rightarrow> (s1\<lparr>sv_leases := ls, sv_catalog := c\<rparr>, None)))))"

definition Service_ApplyRetention :: "Snapshot list \<Rightarrow> int \<Rightarrow> Service \<Rightarrow> Service \<times> string list" where
  "Service_ApplyRetention all keep s =
     (let (c, expired) = catalog_ExpireUnprotected all keep (sv_catalog s) in (s\<lparr>sv_catalog := c\<rparr>, expired))"

definition Service_Rollback ::
  "(string \<times> Snapshot) list \<Rightarrow> clock \<Rightarrow> string \<Rightarrow> Service \<Rightarrow> Service \<times> Snapshot result" where
  "Service_Rollback it ck snapshotID s =
     (case catalog_Snapshot snapshotID (sv_catalog s) of
        None \<Rightarrow> (s, Inl ErrNotFound)
      | Some current \<Rightarrow>
          (case catalog_LastVerifiedFull it (s_Generation current) of
             None \<Rightarrow> (s, Inl ErrNotFound)
           | Some target \<Rightarrow>
               (case svAppend (newEntry (s_Generation current) ''rollback'' (s_ID target) (s_Operation current)
                       (s_ID target) (ck 0)) s of
                  (s1, Some e) \<Rightarrow> (s1, Inl e)
                | (s1, None) \<Rightarrow> (s1, Inr target))))"

text \<open>The body of the loop of \<open>Replay\<close>, with the error it returns, and the loop.\<close>

definition replay_one :: "Entry \<Rightarrow> Service \<Rightarrow> Service \<times> error option" where
  "replay_one entry s =
     (if j_Generation entry \<le> mgetd 0 (sv_replayGenerations s) (j_Operation entry) then (s, None)
      else let s1 = s\<lparr>sv_replayGenerations := mput (sv_replayGenerations s) (j_Operation entry) (j_Generation entry)\<rparr>
           in if j_Kind entry = ''verify'' then
                (case catalog_SetState (j_SnapshotID entry) (j_Generation entry) SnapshotVerified (sv_catalog s1) of
                   (c, Some e) \<Rightarrow> (s1\<lparr>sv_catalog := c\<rparr>, if e \<noteq> ErrNotFound then Some e else None)
                 | (c, None) \<Rightarrow> (s1\<lparr>sv_catalog := c\<rparr>, None))
              else (s1, None))"

fun replay_loop :: "Entry list \<Rightarrow> Service \<Rightarrow> Service \<times> error option" where
  "replay_loop [] s = (s, None)"
| "replay_loop (entry # es) s =
     (case replay_one entry s of
        (s1, Some e) \<Rightarrow> (s1, Some e)
      | (s1, None) \<Rightarrow> replay_loop es s1)"

definition Service_Replay :: "Entry list \<Rightarrow> Service \<Rightarrow> Service \<times> error option" where
  "Service_Replay es s = replay_loop (journal_LatestByOperation es) s"

section \<open>Retries\<close>

definition Service_ScheduleRetry :: "string \<Rightarrow> u64 \<Rightarrow> time \<Rightarrow> Service \<Rightarrow> Service \<times> RetryTask result" where
  "Service_ScheduleRetry snapshotID generation due s =
     (let (nextID, tid) = NewID ''retry'' (sv_nextID s);
          task = \<lparr>t_ID = tid, t_SnapshotID = snapshotID, t_Generation = generation, t_Attempt = 0,
            t_DueAt = tUTC due\<rparr>
      in case retry_Schedule task (sv_retries s) of
           (q, Some e) \<Rightarrow> (s\<lparr>sv_nextID := nextID, sv_retries := q\<rparr>, Inl e)
         | (q, None) \<Rightarrow> (s\<lparr>sv_nextID := nextID, sv_retries := q\<rparr>, Inr task))"

definition Service_CancelRetries :: "string \<Rightarrow> u64 \<Rightarrow> Service \<Rightarrow> Service" where
  "Service_CancelRetries snapshotID generation s =
     s\<lparr>sv_retries := retry_Cancel snapshotID generation (sv_retries s)\<rparr>"

definition Service_RunRetry ::
  "clock \<Rightarrow> (RetryTask \<Rightarrow> Service \<Rightarrow> Service \<times> error option) \<Rightarrow> duration \<Rightarrow> Service \<Rightarrow> Service \<times> error option" where
  "Service_RunRetry ck sender delay s =
     (case retry_Due (ck 0) (sv_retries s) of
        [] \<Rightarrow> (s, Some ErrNotFound)
      | task # _ \<Rightarrow>
          (case sender task s of
             (s1, Some _) \<Rightarrow>
               let (q, e) = retry_RescheduleAfterFailure task (tAdd (ck 1) delay) (sv_retries s1)
               in (s1\<lparr>sv_retries := q\<rparr>, e)
           | (s1, None) \<Rightarrow> (s1\<lparr>sv_retries := retry_Complete task (sv_retries s1)\<rparr>, None)))"

end
