(* ===== verification/ServiceCapture.thy ===== *)
theory ServiceCapture
  imports ServiceFlow
begin

text \<open>
  What the capture workflow does, from \<open>BeginCapture\<close> over any number of staged chunks to
  \<open>CommitCapture\<close> and \<open>VerifySnapshot\<close>, across the lease store, the catalog, the journal and the
  receipts.
\<close>

section \<open>Staging a list of chunks\<close>

text \<open>The caller's loop: chunk \<open>i\<close> of the data is staged under index \<open>i\<close>.\<close>

fun stage_all :: "(nat \<Rightarrow> clock) \<Rightarrow> CaptureHandle \<Rightarrow> nat \<Rightarrow> bytes list \<Rightarrow> Service \<Rightarrow> Service \<times> error option" where
  "stage_all cks h i [] s = (s, None)"
| "stage_all cks h i (data # rest) s =
     (case Service_StageChunk (cks i) h (int i) data s of
        (s1, Some e) \<Rightarrow> (s1, Some e)
      | (s1, None) \<Rightarrow> stage_all cks h (Suc i) rest s1)"

definition chunkAt :: "nat \<Rightarrow> bytes \<Rightarrow> Chunk" where
  "chunkAt i data = \<lparr>c_Index = int i, c_Digest = sumHex data, c_Data = data\<rparr>"

text \<open>The staging of an operation after the first \<open>i\<close> chunks of \<open>datas\<close>.\<close>

definition staged_upto :: "string \<Rightarrow> bytes list \<Rightarrow> nat \<Rightarrow> CatalogStore \<Rightarrow> bool" where
  "staged_upto op datas i c \<longleftrightarrow>
     mlen (mgetd mempty (cat_staged c) op) = i
   \<and> (\<forall>k. mget (mgetd mempty (cat_staged c) op) k =
        (if 0 \<le> k \<and> nat k < i then Some (chunkAt (nat k) (datas ! nat k)) else None))
   \<and> (\<forall>d \<in> set datas. mget (cat_reservations c) (sumHex d) \<in> {None, Some op})"

lemma StageChunk_upto:
  assumes "staged_upto op datas i c" and "i < length datas" and "int (length datas) \<le> cat_maxChunkCount c"
  defines "c1 \<equiv> fst (catalog_ReserveDigest op (sumHex (datas ! i)) c)"
  shows "snd (catalog_ReserveDigest op (sumHex (datas ! i)) c) = None"
    and "snd (catalog_StageChunk op (chunkAt i (datas ! i)) c1) = None"
    and "staged_upto op datas (Suc i) (fst (catalog_StageChunk op (chunkAt i (datas ! i)) c1))"
    and "cat_snapshots (fst (catalog_StageChunk op (chunkAt i (datas ! i)) c1)) = cat_snapshots c"
    and "cat_maxChunkCount (fst (catalog_StageChunk op (chunkAt i (datas ! i)) c1)) = cat_maxChunkCount c"
proof -
  let ?m = "mgetd mempty (cat_staged c) op" and ?d = "sumHex (datas ! i)"
  have "datas ! i \<in> set datas" using assms(2) by simp
  then have res: "mget (cat_reservations c) ?d = None \<or> mget (cat_reservations c) ?d = Some op"
    using assms(1) by (auto simp: staged_upto_def)
  then show "snd (catalog_ReserveDigest op ?d c) = None"
    by (auto simp: catalog_ReserveDigest_def)
  have c1: "c1 = c\<lparr>cat_reservations := mput (cat_reservations c) ?d op\<rparr>"
    using res by (auto simp: c1_def catalog_ReserveDigest_def)
  have m: "mget ?m (int i) = None" "int (mlen ?m) < cat_maxChunkCount c" "mlen ?m = i"
    using assms(1-3) by (auto simp: staged_upto_def)
  show "snd (catalog_StageChunk op (chunkAt i (datas ! i)) c1) = None"
    and "cat_snapshots (fst (catalog_StageChunk op (chunkAt i (datas ! i)) c1)) = cat_snapshots c"
    and "cat_maxChunkCount (fst (catalog_StageChunk op (chunkAt i (datas ! i)) c1)) = cat_maxChunkCount c"
    using m by (simp_all add: catalog_StageChunk_def c1 chunkAt_def Let_def)
  have st: "mgetd mempty (cat_staged (fst (catalog_StageChunk op (chunkAt i (datas ! i)) c1))) op
      = mput ?m (int i) (chunkAt i (datas ! i))"
    and rs: "cat_reservations (fst (catalog_StageChunk op (chunkAt i (datas ! i)) c1))
      = mput (cat_reservations c) ?d op"
    using m by (simp_all add: catalog_StageChunk_def c1 chunkAt_def Let_def)
  show "staged_upto op datas (Suc i) (fst (catalog_StageChunk op (chunkAt i (datas ! i)) c1))"
    unfolding staged_upto_def st rs
    using assms(1) m by (auto simp: staged_upto_def mlen_mput gomap_simps less_Suc_eq)
qed

text \<open>A handle whose lease is valid at all the moments that follow.\<close>

definition lease_good :: "CaptureHandle \<Rightarrow> LeaseStore \<Rightarrow> time \<Rightarrow> bool" where
  "lease_good h ls now \<longleftrightarrow> lease_Validate (captureResource (h_SnapshotID h)) (h_Owner h) (h_LeaseEpoch h) now ls = None"

lemma Service_StageChunk_upto:
  assumes "staged_upto (h_Operation h) datas i (sv_catalog s)" and "i < length datas"
    and "int (length datas) \<le> cat_maxChunkCount (sv_catalog s)" and "lease_good h (sv_leases s) (ck 0)"
  obtains c where "Service_StageChunk ck h (int i) (datas ! i) s = (s\<lparr>sv_catalog := c\<rparr>, None)"
    and "staged_upto (h_Operation h) datas (Suc i) c" and "cat_snapshots c = cat_snapshots (sv_catalog s)"
    and "cat_maxChunkCount c = cat_maxChunkCount (sv_catalog s)"
proof -
  let ?op = "h_Operation h" and ?x = "datas ! i" and ?c = "sv_catalog s"
  note up = StageChunk_upto [OF assms(1-3)]
  obtain c1 where c1: "catalog_ReserveDigest ?op (sumHex ?x) ?c = (c1, None)"
    using up(1) by (metis prod.collapse)
  then obtain c2 where c2: "catalog_StageChunk ?op (chunkAt i ?x) c1 = (c2, None)"
    using up(2) by (metis fst_conv prod.collapse)
  have "Service_StageChunk ck h (int i) ?x s = (s\<lparr>sv_catalog := c2\<rparr>, None)"
    using assms(4) c1 c2 by (simp add: Service_StageChunk_def lease_good_def Let_def chunkAt_def)
  then show thesis using that up(3-5) c1 c2 by simp
qed

lemma stage_all_upto:
  assumes "staged_upto (h_Operation h) datas i (sv_catalog s)" and "i \<le> length datas"
    and "int (length datas) \<le> cat_maxChunkCount (sv_catalog s)" and "\<forall>j. lease_good h (sv_leases s) (cks j 0)"
  shows "\<exists>c. stage_all cks h i (drop i datas) s = (s\<lparr>sv_catalog := c\<rparr>, None)
    \<and> staged_upto (h_Operation h) datas (length datas) c \<and> cat_snapshots c = cat_snapshots (sv_catalog s)"
  using assms
proof (induction "length datas - i" arbitrary: i s)
  case 0
  then show ?case by (auto intro: exI [of _ "sv_catalog s"])
next
  case (Suc n)
  then have i: "i < length datas" by simp
  obtain c where c: "Service_StageChunk (cks i) h (int i) (datas ! i) s = (s\<lparr>sv_catalog := c\<rparr>, None)"
    "staged_upto (h_Operation h) datas (Suc i) c" "cat_snapshots c = cat_snapshots (sv_catalog s)"
    "cat_maxChunkCount c = cat_maxChunkCount (sv_catalog s)"
    using Service_StageChunk_upto [of h datas i s "cks i"] Suc.prems i by metis
  have "drop i datas = datas ! i # drop (Suc i) datas" using i by (rule Cons_nth_drop_Suc [symmetric])
  moreover have "\<exists>c'. stage_all cks h (Suc i) (drop (Suc i) datas) (s\<lparr>sv_catalog := c\<rparr>) =
      (s\<lparr>sv_catalog := c\<rparr>\<lparr>sv_catalog := c'\<rparr>, None)
      \<and> staged_upto (h_Operation h) datas (length datas) c'
      \<and> cat_snapshots c' = cat_snapshots (sv_catalog (s\<lparr>sv_catalog := c\<rparr>))"
    by (rule Suc.hyps(1)) (use Suc.hyps(2) Suc.prems c i in simp_all)
  ultimately show ?case using c by simp
qed

text \<open>The chunks of a completely staged operation, in the order of their indices, are the data.\<close>

lemma orderedChunks_upto:
  assumes "staged_upto op datas (length datas) c"
  shows "orderedChunks (mgetd mempty (cat_staged c) op) = map (\<lambda>i. chunkAt i (datas ! i)) [0..<length datas]"
proof -
  let ?m = "mgetd mempty (cat_staged c) op" and ?n = "length datas"
  have get: "mget ?m k = (if 0 \<le> k \<and> nat k < ?n then Some (chunkAt (nat k) (datas ! nat k)) else None)" for k
    using assms by (simp add: staged_upto_def)
  have "set (mkeys ?m) = int ` {0..<?n}"
  proof (rule set_eqI)
    fix k
    have "k \<in> set (mkeys ?m) \<longleftrightarrow> 0 \<le> k \<and> nat k < ?n" by (simp only: mkeys_set get) simp
    also have "\<dots> \<longleftrightarrow> k \<in> int ` {0..<?n}" by (auto simp: image_iff intro: bexI [of _ "nat k"])
    finally show "k \<in> set (mkeys ?m) \<longleftrightarrow> k \<in> int ` {0..<?n}" .
  qed
  then have "set (sort (mkeys ?m)) = set (map int [0..<?n])" by (simp only: set_sort set_map set_upt)
  moreover have "distinct (sort (mkeys ?m))" by (simp only: distinct_sort DAList.impl_of_distinct)
  moreover have "sorted (map int [0..<k])" for k by (induction k) (auto simp: sorted_append)
  moreover have "distinct (map int [0..<?n])" by (simp add: distinct_map)
  ultimately have "sort (mkeys ?m) = map int [0..<?n]"
    by (intro sorted_distinct_set_unique sorted_sort)
  then show ?thesis
    by (simp add: orderedChunks_def get)
qed

section \<open>Committing\<close>

lemma cloneMetadata_id [simp]: "cloneMetadata m = m"
  by (simp add: cloneMetadata_def)

lemma svAppend_open:
  "\<not> log_closed (sv_journal s) \<Longrightarrow>
     svAppend e s = (s\<lparr>sv_journal := fst (journal_Append e (sv_journal s))\<rparr>, None)"
  by (simp add: svAppend_def journal_Append_def Let_def)

lemma svAppend_closed: "log_closed (sv_journal s) \<Longrightarrow> svAppend e s = (s, Some ErrJournalClosed)"
  by (simp add: svAppend_def journal_Append_def)

lemma Release_good:
  "lease_good h ls now \<Longrightarrow>
     \<exists>l. mget (ls_leases ls) (captureResource (h_SnapshotID h)) = Some l \<and> \<not> l_Released l
       \<and> lease_Release (captureResource (h_SnapshotID h)) (h_Owner h) (h_LeaseEpoch h) ls =
         (ls\<lparr>ls_leases := mput (ls_leases ls) (captureResource (h_SnapshotID h)) (l\<lparr>l_Released := True\<rparr>)\<rparr>, None)"
  by (auto simp: lease_good_def lease_Validate_def lease_Release_def split: option.splits if_splits)

definition committed :: "clock \<Rightarrow> CaptureHandle \<Rightarrow> string \<Rightarrow> bool \<Rightarrow> (string, string) gomap \<Rightarrow> Chunk list \<Rightarrow> Snapshot" where
  "committed ck h baseID full metadata chunks =
     \<lparr>s_ID = h_SnapshotID h, s_BaseID = baseID, s_Operation = h_Operation h, s_Generation = h_Generation h,
      s_Full = full, s_State = SnapshotPublished, s_Metadata = metadata, s_Chunks = chunks, s_CreatedAt = ck 2\<rparr>"

text \<open>A commit with a valid lease, an open journal, a new id and staged chunks publishes them.\<close>

lemma CommitCapture_publishes:
  assumes "lease_good h (sv_leases s) (ck 1)" and "\<not> log_closed (sv_journal s)"
    and "mget (cat_snapshots (sv_catalog s)) (h_SnapshotID h) = None"
    and "mlen (mgetd mempty (cat_staged (sv_catalog s)) (h_Operation h)) \<noteq> 0"
  shows "\<exists>s'. Service_CommitCapture diff host ck h baseID full md s =
      (s', Inr (committed ck h baseID full md
        (orderedChunks (mgetd mempty (cat_staged (sv_catalog s)) (h_Operation h)))))
    \<and> (\<forall>i. Service_Snapshot i s' = (if i = h_SnapshotID h then Some (committed ck h baseID full md
        (orderedChunks (mgetd mempty (cat_staged (sv_catalog s)) (h_Operation h)))) else Service_Snapshot i s))
    \<and> (\<exists>e. Service_JournalEntries s' = Service_JournalEntries s @ [e] \<and> j_Kind e = ''publish''
        \<and> j_SnapshotID e = h_SnapshotID h \<and> j_Operation e = h_Operation h \<and> j_Generation e = h_Generation h)
    \<and> log_closed (sv_journal s') = log_closed (sv_journal s)
    \<and> (\<exists>l. Service_Lease (captureResource (h_SnapshotID h)) s' = Some l \<and> l_Released l)
    \<and> mget (cat_staged (sv_catalog s')) (h_Operation h) = None"
proof -
  obtain l where l: "lease_Release (captureResource (h_SnapshotID h)) (h_Owner h) (h_LeaseEpoch h) (sv_leases s) =
      ((sv_leases s)\<lparr>ls_leases := mput (ls_leases (sv_leases s)) (captureResource (h_SnapshotID h)) (l\<lparr>l_Released := True\<rparr>)\<rparr>, None)"
    using Release_good [OF assms(1)] by blast
  have v: "lease_Validate (captureResource (h_SnapshotID h)) (h_Owner h) (h_LeaseEpoch h) (ck 1) (sv_leases s) = None"
    using assms(1) by (simp add: lease_good_def)
  show ?thesis
    unfolding Service_CommitCapture_def commit_body_def
    by (simp add: v [unfolded One_nat_def] svAppend_open [OF assms(2)] l catalog_CommitSnapshot_def assms(2,3) assms(4) [simplified] Let_def gomap_simps
        observeCapture_def Service_Snapshot_def Service_JournalEntries_def Service_Lease_def lease_Lease_def
        journal_Entries_def journal_Append_def newEntry_def committed_def)
qed

lemma BeginCapture_Inr:
  assumes "Service_BeginCapture ctxErr ck sid owner ttl s = (s1, Inr h)"
  shows "h_SnapshotID h = sid" and "sv_catalog s1 = sv_catalog s" and "sv_journal s1 = sv_journal s"
    and "h_Generation h = sv_generation s + 1" and "h_Operation h = snd (NewID ''capture'' (sv_nextID s))"
    and "sv_verifications s1 = sv_verifications s"
    and "now < tAdd (ck 0) ttl \<Longrightarrow> lease_good h (sv_leases s1) now"
proof -
  obtain ls l where a: "lease_Acquire (captureResource sid) owner (ck 0) ttl (sv_leases s) = (ls, Inr l)"
    and s1: "s1 = s\<lparr>sv_leases := ls, sv_nextID := fst (NewID ''capture'' (sv_nextID s)), sv_generation := sv_generation s + 1\<rparr>"
    and h: "h = \<lparr>h_Operation = snd (NewID ''capture'' (sv_nextID s)), h_SnapshotID = sid, h_Owner = owner,
        h_LeaseEpoch = l_Epoch l, h_Generation = sv_generation s + 1\<rparr>"
    using assms
    by (auto simp: Service_BeginCapture_def Let_def split_beta split: option.splits if_splits sum.splits)
      (metis prod.collapse)
  show "h_SnapshotID h = sid" "sv_catalog s1 = sv_catalog s" "sv_journal s1 = sv_journal s"
    "h_Generation h = sv_generation s + 1" "h_Operation h = snd (NewID ''capture'' (sv_nextID s))"
    "sv_verifications s1 = sv_verifications s"
    by (simp_all add: s1 h)
  show "now < tAdd (ck 0) ttl \<Longrightarrow> lease_good h (sv_leases s1) now"
    using a by (auto simp: s1 h lease_good_def lease_Acquire_def lease_Validate_def Let_def gomap_simps split: if_splits)
qed

lemma VerifySnapshot_published:
  assumes "Service_Snapshot i s = Some sn" and "s_ID sn = i" and "s_State sn = SnapshotPublished"
    and "\<not> log_closed (sv_journal s)"
  shows "\<exists>s'. Service_VerifySnapshot ck i s = (s', Inr (verify_Prepare sn (verify_Digest sn) (ck 0)))
    \<and> Service_Snapshot i s' = Some (sn\<lparr>s_State := SnapshotVerified\<rparr>)
    \<and> Service_Receipt i s' = Some (verify_Prepare sn (verify_Digest sn) (ck 0))
    \<and> (\<forall>j. j \<noteq> i \<longrightarrow> Service_Snapshot j s' = Service_Snapshot j s \<and> Service_Receipt j s' = Service_Receipt j s)"
  using assms
  by (auto simp: Service_VerifySnapshot_def commitVerification_def svAppend_open Service_Snapshot_def
      catalog_SetState_def Service_Receipt_def verify_Prepare_def Let_def gomap_simps)

section \<open>Properties\<close>

text \<open>
  C1: a capture stores what was captured. When \<open>BeginCapture\<close> succeeded and the steps that
  follow happen before the lease's deadline, with an open journal, an unused snapshot id, an
  operation and digests that no other operation uses, and at least one and at most the allowed
  number of chunks: staging chunk \<open>i\<close> of the data under index \<open>i\<close> never fails, and the commit
  publishes a snapshot whose chunks are exactly the data, in order, each with its SHA-256 digest;
  the journal has one more entry, the publication, the lease is released and the staging empty.
  Verifying it then gives a receipt for the digest of exactly this content, and marks it verified.
\<close>

theorem service_capture_roundtrip:
  assumes started: "Service_BeginCapture None ck0 sid owner ttl s = (s1, Inr h)"
    and times: "\<forall>j. cks j 0 < tAdd (ck0 0) ttl" "ck 1 < tAdd (ck0 0) ttl"
    and opened: "\<not> log_closed (sv_journal s)"
    and fresh: "Service_Snapshot sid s = None" "mget (cat_staged (sv_catalog s)) (h_Operation h) = None"
      "\<forall>d \<in> set datas. mget (cat_reservations (sv_catalog s)) (sumHex d) = None"
    and len: "datas \<noteq> []" "int (length datas) \<le> cat_maxChunkCount (sv_catalog s)"
  shows "\<exists>s2 s3 s4 sn.
      stage_all cks h 0 datas s1 = (s2, None)
    \<and> Service_CommitCapture diff host ck h baseID full md s2 = (s3, Inr sn)
    \<and> s_ID sn = sid \<and> s_State sn = SnapshotPublished \<and> s_Generation sn = sv_generation s + 1
    \<and> map c_Data (s_Chunks sn) = datas \<and> map c_Digest (s_Chunks sn) = map sumHex datas
    \<and> map c_Index (s_Chunks sn) = map int [0..<length datas]
    \<and> Service_Snapshot sid s3 = Some sn
    \<and> (\<exists>e. Service_JournalEntries s3 = Service_JournalEntries s @ [e] \<and> j_Kind e = ''publish'' \<and> j_SnapshotID e = sid)
    \<and> (\<exists>l. Service_Lease (captureResource sid) s3 = Some l \<and> l_Released l)
    \<and> mget (cat_staged (sv_catalog s3)) (h_Operation h) = None
    \<and> Service_VerifySnapshot ckv sid s3 = (s4, Inr (verify_Prepare sn (verify_Digest sn) (ckv 0)))
    \<and> Service_Snapshot sid s4 = Some (sn\<lparr>s_State := SnapshotVerified\<rparr>)"
proof -
  note b = BeginCapture_Inr [OF started]
  have up: "staged_upto (h_Operation h) datas 0 (sv_catalog s1)"
    using fresh by (simp add: staged_upto_def b)
  obtain c where st: "stage_all cks h 0 datas s1 = (s1\<lparr>sv_catalog := c\<rparr>, None)"
    and full: "staged_upto (h_Operation h) datas (length datas) c" and sn: "cat_snapshots c = cat_snapshots (sv_catalog s1)"
    using stage_all_upto [OF up, of cks] len(2) times(1) b(7) by (auto simp: b(2))
  let ?chunks = "map (\<lambda>i. chunkAt i (datas ! i)) [0..<length datas]"
  have oc: "orderedChunks (mgetd mempty (cat_staged c) (h_Operation h)) = ?chunks" by (rule orderedChunks_upto [OF full])
  have ne: "mlen (mgetd mempty (cat_staged c) (h_Operation h)) \<noteq> 0" using full len(1) by (simp add: staged_upto_def)
  obtain s3 where s3: "Service_CommitCapture diff host ck h baseID full md (s1\<lparr>sv_catalog := c\<rparr>) =
      (s3, Inr (committed ck h baseID full md ?chunks))"
    "Service_Snapshot sid s3 = Some (committed ck h baseID full md ?chunks)"
    "\<exists>e. Service_JournalEntries s3 = Service_JournalEntries s @ [e] \<and> j_Kind e = ''publish'' \<and> j_SnapshotID e = sid"
    "\<not> log_closed (sv_journal s3)" "\<exists>l. Service_Lease (captureResource sid) s3 = Some l \<and> l_Released l"
    "mget (cat_staged (sv_catalog s3)) (h_Operation h) = None"
    using CommitCapture_publishes [of h "s1\<lparr>sv_catalog := c\<rparr>" ck diff host baseID full md] b times(2) opened fresh(1) ne sn oc
    by (auto simp: Service_Snapshot_def Service_JournalEntries_def)
  let ?sn = "committed ck h baseID full md ?chunks"
  have nth: "map (\<lambda>i. datas ! i) [0..<length datas] = datas" by (rule map_nth)
  have "map c_Data (s_Chunks ?sn) = map (\<lambda>i. datas ! i) [0..<length datas]"
    "map c_Digest (s_Chunks ?sn) = map sumHex (map (\<lambda>i. datas ! i) [0..<length datas])"
    "map c_Index (s_Chunks ?sn) = map int [0..<length datas]"
    by (simp_all add: committed_def chunkAt_def)
  note fields = this [unfolded nth]
  have id: "s_ID ?sn = sid" "s_State ?sn = SnapshotPublished" "s_Generation ?sn = sv_generation s + 1"
    by (simp_all add: committed_def b)
  obtain s4 where s4: "Service_VerifySnapshot ckv sid s3 = (s4, Inr (verify_Prepare ?sn (verify_Digest ?sn) (ckv 0)))"
    "Service_Snapshot sid s4 = Some (?sn\<lparr>s_State := SnapshotVerified\<rparr>)"
    using VerifySnapshot_published [OF s3(2) id(1,2) s3(4), of ckv] by blast
  show ?thesis
    by (rule exI [of _ "s1\<lparr>sv_catalog := c\<rparr>"], rule exI [of _ s3], rule exI [of _ s4], rule exI [of _ ?sn])
      (use st s3 s4 fields id in blast)
qed

lemma service_capture_roundtrip_witness:
  "\<exists>h s1 s2 s3 sn.
      Service_BeginCapture None (\<lambda>_. Time 0 UTC) ''snap'' ''w'' 100 (Service_New 4 0) = (s1, Inr h)
    \<and> stage_all (\<lambda>_ _. Time 1 UTC) h 0 [[1], [2]] s1 = (s2, None)
    \<and> Service_CommitCapture (\<lambda>_ _. []) zeroTime (\<lambda>_. Time 2 UTC) h [] True mempty s2 = (s3, Inr sn)
    \<and> map c_Data (s_Chunks sn) = [[1], [2]]"
proof -
  let ?s = "Service_New 4 0"
  have "\<exists>s1 h. Service_BeginCapture None (\<lambda>_. Time 0 UTC) ''snap'' ''w'' 100 ?s = (s1, Inr h)"
    by (simp add: Service_BeginCapture_def Service_New_def lease_Acquire_def lease_New_def Let_def NewID_def)
  then obtain s1 h where b: "Service_BeginCapture None (\<lambda>_. Time 0 UTC) ''snap'' ''w'' 100 ?s = (s1, Inr h)"
    by blast
  have "\<exists>s2 s3 s4 sn. stage_all (\<lambda>_ _. Time 1 UTC) h 0 [[1], [2]] s1 = (s2, None)
      \<and> Service_CommitCapture (\<lambda>_ _. []) zeroTime (\<lambda>_. Time 2 UTC) h [] True mempty s2 = (s3, Inr sn)
      \<and> s_ID sn = ''snap'' \<and> s_State sn = SnapshotPublished \<and> s_Generation sn = sv_generation ?s + 1
      \<and> map c_Data (s_Chunks sn) = [[1], [2]] \<and> map c_Digest (s_Chunks sn) = map sumHex [[1], [2]]
      \<and> map c_Index (s_Chunks sn) = map int [0..<length [[1 :: byte], [2]]]
      \<and> Service_Snapshot ''snap'' s3 = Some sn
      \<and> (\<exists>e. Service_JournalEntries s3 = Service_JournalEntries ?s @ [e] \<and> j_Kind e = ''publish'' \<and> j_SnapshotID e = ''snap'')
      \<and> (\<exists>l. Service_Lease (captureResource ''snap'') s3 = Some l \<and> l_Released l)
      \<and> mget (cat_staged (sv_catalog s3)) (h_Operation h) = None
      \<and> Service_VerifySnapshot (\<lambda>_. zeroTime) ''snap'' s3 = (s4, Inr (verify_Prepare sn (verify_Digest sn) zeroTime))
      \<and> Service_Snapshot ''snap'' s4 = Some (sn\<lparr>s_State := SnapshotVerified\<rparr>)"
    by (rule service_capture_roundtrip [OF b])
      (simp_all add: Service_New_def Service_Snapshot_def catalog_New_def journal_New_def)
  then obtain s2 s3 sn where "stage_all (\<lambda>_ _. Time 1 UTC) h 0 [[1], [2]] s1 = (s2, None)"
    "Service_CommitCapture (\<lambda>_ _. []) zeroTime (\<lambda>_. Time 2 UTC) h [] True mempty s2 = (s3, Inr sn)"
    "map c_Data (s_Chunks sn) = [[1], [2]]" by (elim exE conjE) metis
  with b show ?thesis by (intro exI conjI)
qed

text \<open>
  C13: \<open>CommitCapture\<close> that fails publishes nothing, and the catalog's snapshots are as before.
  With a lease that is not valid nothing else changes either. With a valid one, the staging and the
  reservations of the operation are forgotten and the lease is released; the reason is a closed
  journal, or an id that is taken, or that nothing was staged. In the last two cases the journal
  has been written before the catalog refused, and keeps an entry of a publication that did not
  take place.
\<close>

theorem service_commit_failure:
  assumes "Service_CommitCapture diff host ck h baseID full md s = (s', Inl e)"
  shows "(\<forall>i. Service_Snapshot i s' = Service_Snapshot i s)
    \<and> (if \<not> lease_good h (sv_leases s) (ck 1) then
          e = ErrLeaseFenced \<and> sv_catalog s' = sv_catalog s \<and> sv_leases s' = sv_leases s \<and> sv_journal s' = sv_journal s
        else
          mget (cat_staged (sv_catalog s')) (h_Operation h) = None
        \<and> (\<forall>d. mget (cat_reservations (sv_catalog s')) d \<noteq> Some (h_Operation h))
        \<and> (\<exists>l. Service_Lease (captureResource (h_SnapshotID h)) s' = Some l \<and> l_Released l)
        \<and> (if log_closed (sv_journal s) then e = ErrJournalClosed \<and> sv_journal s' = sv_journal s
            else (\<exists>en. Service_JournalEntries s' = Service_JournalEntries s @ [en] \<and> j_Kind en = ''publish''
                    \<and> j_SnapshotID en = h_SnapshotID h)
              \<and> (e = ErrConflict \<and> Service_Snapshot (h_SnapshotID h) s \<noteq> None
                 \<or> e = ErrNotFound \<and> Service_Snapshot (h_SnapshotID h) s = None
                   \<and> mlen (mgetd mempty (cat_staged (sv_catalog s)) (h_Operation h)) = 0)))"
proof (cases "lease_good h (sv_leases s) (ck 1)")
  case False
  then have "lease_Validate (captureResource (h_SnapshotID h)) (h_Owner h) (h_LeaseEpoch h) (ck 1) (sv_leases s)
      = Some ErrLeaseFenced"
    by (auto simp: lease_good_def lease_Validate_def split: option.splits if_splits)
  with False assms show ?thesis
    by (auto simp: Service_CommitCapture_def commit_body_def Let_def observeCapture_def Service_Snapshot_def)
next
  case True
  then have v: "lease_Validate (captureResource (h_SnapshotID h)) (h_Owner h) (h_LeaseEpoch h) (ck 1) (sv_leases s) = None"
    by (simp add: lease_good_def)
  obtain l where l: "lease_Release (captureResource (h_SnapshotID h)) (h_Owner h) (h_LeaseEpoch h) (sv_leases s) =
      ((sv_leases s)\<lparr>ls_leases := mput (ls_leases (sv_leases s)) (captureResource (h_SnapshotID h)) (l\<lparr>l_Released := True\<rparr>)\<rparr>, None)"
    using Release_good [OF True] by blast
  let ?m = "mgetd mempty (cat_staged (sv_catalog s)) (h_Operation h)"
  have drop: "mget (dropOwner op rs) d \<noteq> Some op" for op rs d
    by (auto simp: dropOwner_def gomap_simps split: option.splits)
  show ?thesis
  proof (cases "log_closed (sv_journal s)")
    case closed: True
    with True assms v l show ?thesis
      by (auto simp: Service_CommitCapture_def commit_body_def Let_def observeCapture_def Service_Snapshot_def
          svAppend_closed commit_failed_def catalog_ForgetOperation_def gomap_simps drop Service_Lease_def lease_Lease_def)
  next
    case opened: False
    then have "\<not> (mget (cat_snapshots (sv_catalog s)) (h_SnapshotID h) = None \<and> mlen ?m \<noteq> 0)"
      using CommitCapture_publishes [where ck = ck and h = h and s = s, OF True opened, of diff host baseID full md]
        assms by auto
    with True assms v l opened show ?thesis
      by (auto simp: Service_CommitCapture_def commit_body_def Let_def observeCapture_def Service_Snapshot_def
          svAppend_open commit_failed_def catalog_ForgetOperation_def gomap_simps drop Service_Lease_def lease_Lease_def
          catalog_CommitSnapshot_def Service_JournalEntries_def journal_Entries_def journal_Append_def newEntry_def
          split: if_splits)
  qed
qed

definition sample_handle :: CaptureHandle where
  "sample_handle = \<lparr>h_Operation = ''o'', h_SnapshotID = ''s'', h_Owner = ''w'', h_LeaseEpoch = 1, h_Generation = 1\<rparr>"

definition sample_service :: Service where
  "sample_service = (Service_New 1 0)\<lparr>sv_leases :=
     fst (lease_Acquire (captureResource ''s'') ''w'' (Time 0 UTC) 10 lease_New)\<rparr>"

lemma sample_lease_good: "lease_good sample_handle (sv_leases sample_service) (Time 1 UTC)"
  by (simp add: lease_good_def sample_handle_def sample_service_def lease_Acquire_def lease_Validate_def
      lease_New_def Let_def)

lemma service_commit_failure_witness:
  "\<exists>s'. Service_CommitCapture (\<lambda>_ _. []) zeroTime (\<lambda>_. Time 1 UTC) sample_handle [] True mempty sample_service
       = (s', Inl ErrNotFound) \<and> length (Service_JournalEntries s') = 1"
proof -
  have "\<exists>s'. Service_CommitCapture (\<lambda>_ _. []) zeroTime (\<lambda>_. Time 1 UTC) sample_handle [] True mempty sample_service
       = (s', Inl ErrNotFound)"
    by (simp add: Service_CommitCapture_def commit_body_def sample_handle_def sample_service_def Service_New_def
        lease_Acquire_def lease_Validate_def lease_New_def Let_def svAppend_def journal_Append_def journal_New_def
        catalog_CommitSnapshot_def catalog_New_def)
  then obtain s' where c: "Service_CommitCapture (\<lambda>_ _. []) zeroTime (\<lambda>_. Time 1 UTC) sample_handle [] True mempty sample_service
       = (s', Inl ErrNotFound)" by blast
  have "Service_JournalEntries sample_service = []" "\<not> log_closed (sv_journal sample_service)"
    by (simp_all add: sample_service_def Service_New_def Service_JournalEntries_def journal_Entries_def journal_New_def)
  with service_commit_failure [OF c] sample_lease_good c show ?thesis by auto
qed

text \<open>
  \<open>StageChunk\<close> gives back a reservation it did not make. When an operation has staged a chunk
  and stages the same data under another index, which fails because the operation is at its
  capacity, the digest's reservation is released although the first chunk is still staged; another
  operation can then reserve the digest and stage the same data, which \<open>ReserveDigest\<close> refused
  until then.
\<close>

theorem service_stage_releases_shared_digest:
  assumes "lease_good h (sv_leases s) (ck 0)"
    and "mget (cat_staged (sv_catalog s)) (h_Operation h) = Some m" and "mget m j = Some c"
    and "c_Digest c = sumHex data" and "mget (cat_reservations (sv_catalog s)) (sumHex data) = Some (h_Operation h)"
    and "mget m i = None" and "cat_maxChunkCount (sv_catalog s) \<le> int (mlen m)" and "op' \<noteq> h_Operation h"
  shows "snd (catalog_ReserveDigest op' (sumHex data) (sv_catalog s)) = Some ErrConflict
    \<and> (\<exists>s'. Service_StageChunk ck h i data s = (s', Some ErrCapacity)
      \<and> mget (mgetd mempty (cat_staged (sv_catalog s')) (h_Operation h)) j = Some c
      \<and> mget (cat_reservations (sv_catalog s')) (sumHex data) = None
      \<and> snd (catalog_ReserveDigest op' (sumHex data) (sv_catalog s')) = None)"
proof
  show "snd (catalog_ReserveDigest op' (sumHex data) (sv_catalog s)) = Some ErrConflict"
    using assms(5,8) by (simp add: catalog_ReserveDigest_def)
  let ?c1 = "(sv_catalog s)\<lparr>cat_reservations := mput (cat_reservations (sv_catalog s)) (sumHex data) (h_Operation h)\<rparr>"
  have r: "catalog_ReserveDigest (h_Operation h) (sumHex data) (sv_catalog s) = (?c1, None)"
    using assms(5) by (simp add: catalog_ReserveDigest_def)
  have st: "catalog_StageChunk (h_Operation h) \<lparr>c_Index = i, c_Digest = sumHex data, c_Data = data\<rparr> ?c1 = (?c1, Some ErrCapacity)"
    using assms(2,6,7) by (simp add: catalog_StageChunk_def Let_def)
  show "\<exists>s'. Service_StageChunk ck h i data s = (s', Some ErrCapacity)
      \<and> mget (mgetd mempty (cat_staged (sv_catalog s')) (h_Operation h)) j = Some c
      \<and> mget (cat_reservations (sv_catalog s')) (sumHex data) = None
      \<and> snd (catalog_ReserveDigest op' (sumHex data) (sv_catalog s')) = None"
    using assms(1,2,3) r st
    by (simp add: Service_StageChunk_def lease_good_def Let_def catalog_ReleaseDigest_def gomap_simps
        catalog_ReserveDigest_def)
qed

lemma service_stage_releases_witness:
  "let s1 = fst (Service_StageChunk (\<lambda>_. Time 1 UTC) sample_handle 0 [7] sample_service)
   in \<exists>s'. Service_StageChunk (\<lambda>_. Time 1 UTC) sample_handle 1 [7] s1 = (s', Some ErrCapacity)
      \<and> mget (cat_reservations (sv_catalog s')) (sumHex [7]) = None"
proof -
  let ?s1 = "fst (Service_StageChunk (\<lambda>_. Time 1 UTC) sample_handle 0 [7] sample_service)"
  let ?c = "\<lparr>c_Index = 0, c_Digest = sumHex [7], c_Data = [7 :: byte]\<rparr>"
  have v: "lease_Validate (captureResource (h_SnapshotID sample_handle)) (h_Owner sample_handle)
      (h_LeaseEpoch sample_handle) (Time 1 UTC) (sv_leases sample_service) = None"
    using sample_lease_good by (simp add: lease_good_def)
  have s1: "?s1 = sample_service\<lparr>sv_catalog := (catalog_New 1)\<lparr>
      cat_reservations := mput mempty (sumHex [7]) ''o'', cat_staged := mput (mput mempty ''o'' mempty) ''o'' (mput mempty (0 :: int) ?c)\<rparr>\<rparr>"
    unfolding Service_StageChunk_def v
    by (simp add: Let_def catalog_ReserveDigest_def catalog_StageChunk_def sample_service_def Service_New_def
        catalog_New_def sample_handle_def)
  have "lease_good sample_handle (sv_leases ?s1) (Time 1 UTC)" unfolding s1 using sample_lease_good by simp
  moreover have "mget (cat_staged (sv_catalog ?s1)) (h_Operation sample_handle) = Some (mput mempty (0 :: int) ?c)"
    "mget (mput mempty (0 :: int) ?c) 0 = Some ?c" "c_Digest ?c = sumHex [7]"
    "mget (cat_reservations (sv_catalog ?s1)) (sumHex [7]) = Some (h_Operation sample_handle)"
    "mget (mput mempty (0 :: int) ?c) 1 = None" "cat_maxChunkCount (sv_catalog ?s1) \<le> int (mlen (mput mempty (0::int) ?c))"
    "''p'' \<noteq> h_Operation sample_handle"
    unfolding s1 by (simp_all add: sample_handle_def catalog_New_def mlen_mput)
  ultimately show ?thesis
    using service_stage_releases_shared_digest [where ck = "\<lambda>_. Time 1 UTC" and s = ?s1 and h = sample_handle
        and data = "[7]" and i = 1 and j = 0 and m = "mput mempty (0 :: int) ?c" and c = ?c and op' = "''p''"]
    by (auto simp: Let_def)
qed

end
