(* ===== verification/ServiceRestore.thy ===== *)
theory ServiceRestore
  imports ServiceCapture
begin

text \<open>
  What the restore, retention, replay, retry, migration and garbage collection operations of the
  service do across its components.
\<close>

section \<open>Restore and retention\<close>

text \<open>Any number of retention passes, each with any order the sort may choose and any number kept.\<close>

inductive retained :: "Service \<Rightarrow> Service \<Rightarrow> bool" for s where
  none: "retained s s"
| pass: "\<lbrakk> retained s t; expire_order (sv_catalog t) all \<rbrakk> \<Longrightarrow> retained s (fst (Service_ApplyRetention all keep t))"

lemma ApplyRetention_catalog:
  "sv_catalog (fst (Service_ApplyRetention all keep s)) = fst (catalog_ExpireUnprotected all keep (sv_catalog s))"
  by (simp add: Service_ApplyRetention_def split_beta)

lemma retained_keeps:
  assumes "retained s t" and "catalog_inv (sv_catalog s)" and "catalog_HasRestoreRef i (sv_catalog s)"
  shows "catalog_inv (sv_catalog t) \<and> cat_restoreRefs (sv_catalog t) = cat_restoreRefs (sv_catalog s)
    \<and> Service_Snapshot i t = Service_Snapshot i s"
  using assms
proof (induction rule: retained.induct)
  case (pass t all keep)
  let ?c = "sv_catalog t" and ?c' = "fst (catalog_ExpireUnprotected all keep (sv_catalog t))"
  have inv: "catalog_inv ?c" and refs: "cat_restoreRefs ?c = cat_restoreRefs (sv_catalog s)"
    and same: "Service_Snapshot i t = Service_Snapshot i s"
    using pass by simp_all
  have "cat_restoreRefs ?c' = cat_restoreRefs ?c" by (subst expire_frame) simp
  moreover have "i \<notin> set (snd (catalog_ExpireUnprotected all keep ?c))"
    using expire_ids_unprotected [OF inv pass.hyps(2)] pass.prems(2) refs
    by (auto simp: catalog_HasRestoreRef_def)
  then have "mget (cat_snapshots ?c') i = mget (cat_snapshots ?c) i"
    using expire_store [OF inv pass.hyps(2), of keep] by simp
  ultimately show ?case
    using inv refs same catalog_inv_ExpireUnprotected [OF inv pass.hyps(2)]
    by (simp add: ApplyRetention_catalog Service_Snapshot_def)
qed simp

lemma Build_fields:
  "restore_Build sn pid = Inr plan \<Longrightarrow>
     p_SnapshotID plan = s_ID sn \<and> p_Chunks plan = sort (map c_Index (s_Chunks sn)) \<and> p_ID plan = pid"
  by (auto simp: restore_Build_def split: if_splits)

lemma BeginRestore_Inr:
  assumes "Service_BeginRestore ck sid owner ttl s = (s1, Inr plan)"
  shows "\<exists>sn ls l. Service_Snapshot sid s = Some sn \<and> s_State sn \<noteq> SnapshotExpired
    \<and> restore_Build sn (p_ID plan) = Inr plan
    \<and> lease_Acquire (restoreResource sid) owner (ck 0) ttl (sv_leases s) = (ls, Inr l)
    \<and> s1 = s\<lparr>sv_nextID := fst (NewID ''restore'' (sv_nextID s)), sv_leases := ls,
        sv_catalog := catalog_AddRestoreReference (p_ID plan) sid (sv_catalog s)\<rparr>"
proof -
  obtain sn where sn: "mget (cat_snapshots (sv_catalog s)) sid = Some sn"
    using assms by (cases "mget (cat_snapshots (sv_catalog s)) sid") (auto simp: Service_BeginRestore_def)
  obtain ls r where a: "lease_Acquire (restoreResource sid) owner (ck 0) ttl (sv_leases s) = (ls, r)"
    by (cases "lease_Acquire (restoreResource sid) owner (ck 0) ttl (sv_leases s)")
  obtain l where "r = Inr l"
    using assms sn a by (cases r) (auto simp: Service_BeginRestore_def Let_def split_beta)
  then show ?thesis
    using assms sn a
    by (auto simp: Service_BeginRestore_def Let_def split_beta restore_Build_def Service_Snapshot_def
        split: if_splits)
qed

lemma FinishRestore_None:
  assumes "Service_FinishRestore ck plan owner s = (s', None)"
  shows "sv_catalog s' = fst (catalog_RemoveRestoreReference (p_ID plan) (p_SnapshotID plan) (sv_catalog s))"
proof -
  let ?r = "restoreResource (p_SnapshotID plan)"
  obtain l where l: "lease_Lease ?r (sv_leases s) = Some l"
    using assms by (cases "lease_Lease ?r (sv_leases s)") (auto simp: Service_FinishRestore_def)
  obtain s1 e1 where a: "svAppend (newEntry (l_Epoch l) ''restore-complete'' (p_SnapshotID plan) (p_ID plan) [] (ck 0)) s
      = (s1, e1)" by fastforce
  obtain ls e2 where r: "lease_Release ?r owner (l_Epoch l) (sv_leases s1) = (ls, e2)" by fastforce
  obtain c ok where c: "catalog_RemoveRestoreReference (p_ID plan) (p_SnapshotID plan) (sv_catalog s1) = (c, ok)"
    by fastforce
  have "e1 = None" "e2 = None" "ok" "s' = s1\<lparr>sv_leases := ls, sv_catalog := c\<rparr>"
    using assms unfolding Service_FinishRestore_def Let_def l option.case a prod.case
    by (auto simp: r c split: option.splits bool.splits)
  moreover have "sv_catalog s1 = sv_catalog s" using a by (auto simp: svAppend_def split: prod.splits sum.splits)
  ultimately show ?thesis using c by simp
qed

text \<open>
  C2: a snapshot under restore is not expired. After \<open>BeginRestore\<close> returned a plan, no number
  of retention passes, with any number of snapshots kept and any order of equally old ones, changes
  the snapshot; the plan lists its chunks. Finishing the restore removes exactly this plan's
  reference, so the snapshot is protected afterwards only by other plans.
\<close>

theorem service_restore_protects:
  assumes "catalog_inv (sv_catalog s)" and "Service_BeginRestore ck sid owner ttl s = (s1, Inr plan)"
    and "retained s1 t"
  shows "Service_Snapshot sid t = Service_Snapshot sid s
    \<and> (\<exists>sn. Service_Snapshot sid t = Some sn \<and> s_State sn \<noteq> SnapshotExpired
        \<and> p_SnapshotID plan = s_ID sn \<and> p_Chunks plan = sort (map c_Index (s_Chunks sn)))
    \<and> (\<forall>ck' t'. Service_FinishRestore ck' plan owner t = (t', None) \<longrightarrow>
        refs_abs (sv_catalog t') = refs_abs (sv_catalog s1) - {(p_ID plan, sid)})"
proof -
  obtain sn ls l where b: "Service_Snapshot sid s = Some sn" "s_State sn \<noteq> SnapshotExpired"
    "restore_Build sn (p_ID plan) = Inr plan"
    "s1 = s\<lparr>sv_nextID := fst (NewID ''restore'' (sv_nextID s)), sv_leases := ls,
        sv_catalog := catalog_AddRestoreReference (p_ID plan) sid (sv_catalog s)\<rparr>"
    using BeginRestore_Inr [OF assms(2)] by blast
  have id: "s_ID sn = sid" using assms(1) b(1) by (auto simp: catalog_inv_def Service_Snapshot_def)
  have inv1: "catalog_inv (sv_catalog s1)" using assms(1) b(4) by (simp add: catalog_inv_AddRestoreReference)
  have ref: "catalog_HasRestoreRef sid (sv_catalog s1)"
    by (auto simp: HasRestoreRef_abs b(4) AddRestoreReference_abs)
  have same1: "Service_Snapshot sid s1 = Service_Snapshot sid s"
    by (simp add: b(4) Service_Snapshot_def catalog_AddRestoreReference_def Let_def)
  note k = retained_keeps [OF assms(3) inv1 ref]
  have abs: "refs_abs (sv_catalog t) = refs_abs (sv_catalog s1)" using k by (simp add: refs_abs_def)
  have plan: "p_SnapshotID plan = s_ID sn" "p_Chunks plan = sort (map c_Index (s_Chunks sn))"
    using Build_fields [OF b(3)] by simp_all
  have "refs_abs (sv_catalog t') = refs_abs (sv_catalog t) - {(p_ID plan, p_SnapshotID plan)}"
    if "Service_FinishRestore ck' plan owner t = (t', None)" for ck' t'
    unfolding FinishRestore_None [OF that] by (rule RemoveRestoreReference_abs(1))
  with k same1 b plan id abs show ?thesis by auto
qed

definition restore_service :: Service where
  "restore_service = (Service_New 1 0)\<lparr>sv_catalog := (catalog_New 1)\<lparr>
     cat_snapshots := mput mempty ''s'' (sample_published [sample_chunk 0 [7]])\<rparr>\<rparr>"

lemma restore_service_inv: "catalog_inv (sv_catalog restore_service)"
  by (auto simp: restore_service_def catalog_inv_def catalog_New_def sample_published_def gomap_simps split: if_splits)

lemma restore_service_begins:
  "\<exists>s1 plan. Service_BeginRestore (\<lambda>_. Time 0 UTC) ''s'' ''w'' 10 restore_service = (s1, Inr plan)"
  by (simp add: restore_service_def Service_BeginRestore_def sample_published_def NewID_def Let_def lease_Acquire_def
      Service_New_def lease_New_def restore_Build_def)

text \<open>A retention pass that keeps nothing would expire the snapshot, were it not under restore.\<close>

lemma service_restore_protects_witness:
  "\<exists>s1 plan. Service_BeginRestore (\<lambda>_. Time 0 UTC) ''s'' ''w'' 10 restore_service = (s1, Inr plan)
     \<and> Service_Snapshot ''s'' (fst (Service_ApplyRetention (mvals (cat_snapshots (sv_catalog s1))) 0 s1))
       = Service_Snapshot ''s'' restore_service"
proof -
  obtain s1 plan where b: "Service_BeginRestore (\<lambda>_. Time 0 UTC) ''s'' ''w'' 10 restore_service = (s1, Inr plan)"
    using restore_service_begins by blast
  obtain ls where "s1 = restore_service\<lparr>sv_nextID := fst (NewID ''restore'' (sv_nextID restore_service)), sv_leases := ls,
      sv_catalog := catalog_AddRestoreReference (p_ID plan) ''s'' (sv_catalog restore_service)\<rparr>"
    using BeginRestore_Inr [OF b] by blast
  then have "expire_order (sv_catalog s1) (mvals (cat_snapshots (sv_catalog s1)))"
    by (simp add: expire_order_def catalog_AddRestoreReference_def Let_def restore_service_def entries_mput)
  then have "retained s1 (fst (Service_ApplyRetention (mvals (cat_snapshots (sv_catalog s1))) 0 s1))"
    by (intro retained.intros)
  from service_restore_protects [OF restore_service_inv b this] b show ?thesis by blast
qed

text \<open>
  A restore whose lease ran out and was taken over cannot be finished. \<open>FinishRestore\<close> of the
  first owner is refused, but the journal already says that the restore is complete, and the
  reference of its plan stays: the snapshot cannot expire.
\<close>

theorem service_restore_takeover:
  assumes "lease_Lease (restoreResource (p_SnapshotID plan)) (sv_leases s) = Some l" and "l_Owner l \<noteq> owner"
    and "\<not> log_closed (sv_journal s)" and "(p_ID plan, p_SnapshotID plan) \<in> refs_abs (sv_catalog s)"
  shows "\<exists>s' e. Service_FinishRestore ck plan owner s = (s', Some ErrLeaseFenced)
    \<and> Service_JournalEntries s' = Service_JournalEntries s @ [e] \<and> j_Kind e = ''restore-complete''
    \<and> j_Operation e = p_ID plan
    \<and> catalog_HasRestoreRef (p_SnapshotID plan) (sv_catalog s')"
  using assms
  by (auto simp: Service_FinishRestore_def svAppend_open lease_Lease_def lease_Release_def Let_def
      Service_JournalEntries_def journal_Entries_def journal_Append_def newEntry_def HasRestoreRef_abs)

lemma service_restore_takeover_witness:
  "let plan = \<lparr>p_ID = ''p'', p_SnapshotID = ''s'', p_Chunks = [0], p_Cursor = 0, p_CreatedAt = zeroTime\<rparr>;
       s = (Service_New 1 0)\<lparr>
         sv_leases := fst (lease_Acquire (restoreResource ''s'') ''v'' (Time 0 UTC) 10 lease_New),
         sv_catalog := catalog_AddRestoreReference ''p'' ''s'' (catalog_New 1)\<rparr>
   in snd (Service_FinishRestore (\<lambda>_. Time 1 UTC) plan ''w'' s) = Some ErrLeaseFenced"
proof -
  let ?plan = "\<lparr>p_ID = ''p'', p_SnapshotID = ''s'', p_Chunks = [0], p_Cursor = 0, p_CreatedAt = zeroTime\<rparr> :: RestorePlan"
  let ?s = "(Service_New 1 0)\<lparr>
    sv_leases := fst (lease_Acquire (restoreResource ''s'') ''v'' (Time 0 UTC) 10 lease_New),
    sv_catalog := catalog_AddRestoreReference ''p'' ''s'' (catalog_New 1)\<rparr>"
  obtain l where "lease_Lease (restoreResource (p_SnapshotID ?plan)) (sv_leases ?s) = Some l" "l_Owner l \<noteq> ''w''"
    by (auto simp: lease_Lease_def lease_Acquire_def lease_New_def Let_def)
  moreover have "(p_ID ?plan, p_SnapshotID ?plan) \<in> refs_abs (sv_catalog ?s)"
    by (simp add: AddRestoreReference_abs)
  moreover have "\<not> log_closed (sv_journal ?s)" by (simp add: Service_New_def journal_New_def)
  ultimately show ?thesis
    using service_restore_takeover [of ?plan ?s _ "''w''" "\<lambda>_. Time 1 UTC"] by (auto simp: Let_def)
qed

section \<open>Replay\<close>

definition replayed :: "Service \<Rightarrow> string \<Rightarrow> u64" where
  "replayed s op = mgetd 0 (sv_replayGenerations s) op"

lemma replay_one_spec:
  assumes "replay_one entry s = (s1, r)"
  shows "replayed s k \<le> replayed s1 k" and "j_Generation entry \<le> replayed s1 (j_Operation entry)"
  using assms
  by (auto simp: replay_one_def replayed_def Let_def not_le less_imp_le split: if_splits prod.splits option.splits)

lemma replay_loop_mono: "replayed s k \<le> replayed (fst (replay_loop es s)) k"
proof (induction es arbitrary: s)
  case (Cons entry es)
  obtain s1 r where r: "replay_one entry s = (s1, r)" by (cases "replay_one entry s")
  have "replayed s k \<le> replayed s1 k" by (rule replay_one_spec [OF r])
  also have "\<dots> \<le> replayed (fst (replay_loop es s1)) k" by (rule Cons)
  finally show ?case using r replay_one_spec(1) [OF r, of k] by (cases r) simp_all
qed simp

lemma replay_loop_covers:
  "replay_loop es s = (s', None) \<Longrightarrow> e \<in> set es \<Longrightarrow> j_Generation e \<le> replayed s' (j_Operation e)"
proof (induction es arbitrary: s)
  case (Cons entry es)
  obtain s1 where r: "replay_one entry s = (s1, None)" and l: "replay_loop es s1 = (s', None)"
    using Cons.prems(1) by (cases "replay_one entry s") (auto split: option.splits)
  show ?case
  proof (cases "e \<in> set es")
    case True
    with Cons.IH l show ?thesis by blast
  next
    case False
    with Cons.prems(2) have "e = entry" by simp
    then have "j_Generation e \<le> replayed s1 (j_Operation e)" using replay_one_spec(2) [OF r] by simp
    also have "\<dots> \<le> replayed s' (j_Operation e)" using replay_loop_mono [of s1 "j_Operation e" es] l by simp
    finally show ?thesis .
  qed
qed simp

lemma replay_loop_done: "\<forall>e \<in> set es. j_Generation e \<le> replayed s (j_Operation e) \<Longrightarrow> replay_loop es s = (s, None)"
  by (induction es) (auto simp: replayed_def replay_one_def)

interpretation replays: monotone_store "\<lambda>es s. fst (Service_Replay es s)" replayed
  by unfold_locales (simp add: Service_Replay_def replay_loop_mono)

lemma replay_loop_error:
  "replay_loop es s = (s', Some x) \<Longrightarrow>
     \<exists>e \<in> set es. j_Kind e = ''verify'' \<and> replayed s' (j_Operation e) = j_Generation e
       \<and> (\<exists>sn. Service_Snapshot (j_SnapshotID e) s' = Some sn \<and> s_Generation sn \<noteq> j_Generation e)
       \<and> x = ErrConflict"
proof (induction es arbitrary: s)
  case (Cons entry es)
  obtain s1 r where r: "replay_one entry s = (s1, r)" by (cases "replay_one entry s")
  show ?case
  proof (cases r)
    case None
    with r Cons show ?thesis by auto
  next
    case (Some y)
    with r Cons.prems have "s' = s1" "x = y" by simp_all
    with r Some show ?thesis
      by (auto simp: replay_one_def replayed_def Let_def catalog_SetState_def Service_Snapshot_def
          split: if_splits option.splits)
  qed
qed simp

text \<open>
  C14: \<open>Replay\<close> is idempotent: after a replay that succeeded, replaying the same entries again
  succeeds and changes nothing, at once or after any other replays; and the generation that was
  replayed for an operation never goes back.
\<close>

theorem service_replay_idempotent:
  assumes "Service_Replay es s = (s', None)"
  shows "Service_Replay es (fold (\<lambda>xs t. fst (Service_Replay xs t)) later s')
      = (fold (\<lambda>xs t. fst (Service_Replay xs t)) later s', None)
    \<and> replayed s op \<le> replayed s' op"
proof -
  let ?t = "fold (\<lambda>xs t. fst (Service_Replay xs t)) later s'"
  have l: "replay_loop (journal_LatestByOperation es) s = (s', None)" using assms by (simp add: Service_Replay_def)
  have "j_Generation e \<le> replayed ?t (j_Operation e)" if "e \<in> set (journal_LatestByOperation es)" for e
    by (rule replays.run_keeps_bound) (rule replay_loop_covers [OF l that])
  then have "replay_loop (journal_LatestByOperation es) ?t = (?t, None)" by (intro replay_loop_done) blast
  then show ?thesis
    using replay_loop_mono [of s op "journal_LatestByOperation es"] l by (simp add: Service_Replay_def)
qed

definition verify_entry :: "u64 \<Rightarrow> Entry" where
  "verify_entry g = newEntry g ''verify'' ''s'' ''o'' [] zeroTime"

lemma service_replay_idempotent_witness:
  "\<exists>s'. Service_Replay [verify_entry 1] (Service_New 1 0) = (s', None)
     \<and> Service_Replay [verify_entry 1] s' = (s', None)"
proof -
  obtain s' where r: "Service_Replay [verify_entry 1] (Service_New 1 0) = (s', None)"
    by (auto simp: Service_Replay_def journal_LatestByOperation_def verify_entry_def newEntry_def replay_one_def
        Service_New_def catalog_SetState_def catalog_New_def Let_def mgetd_def)
  from service_replay_idempotent [OF r, of "[]"] r show ?thesis by auto
qed

text \<open>
  What a replay loses and what it brings back. A replay that stops with an error, which is
  always a conflict of generations of a verification, has already marked the entry as replayed:
  replaying this entry again reports success and does nothing. And a verification that is replayed
  for an expired snapshot of its generation makes it verified again.
\<close>

theorem service_replay_gaps:
  "(Service_Replay es s = (s', Some x) \<longrightarrow>
     x = ErrConflict \<and> (\<exists>e \<in> set (journal_LatestByOperation es). j_Kind e = ''verify''
       \<and> Service_Replay [e] s' = (s', None)
       \<and> (\<exists>sn. Service_Snapshot (j_SnapshotID e) s' = Some sn \<and> s_Generation sn \<noteq> j_Generation e)))
   \<and> (Service_Snapshot i s = Some sn \<and> s_State sn = SnapshotExpired \<and> j_Kind e = ''verify'' \<and> j_SnapshotID e = i
       \<and> j_Generation e = s_Generation sn \<and> replayed s (j_Operation e) < j_Generation e \<longrightarrow>
      Service_Snapshot i (fst (Service_Replay [e] s)) = Some (sn\<lparr>s_State := SnapshotVerified\<rparr>))"
proof -
  have one: "journal_LatestByOperation [e] = [e]" for e
    by (simp add: journal_LatestByOperation_def Let_def)
  have "x = ErrConflict \<and> (\<exists>e \<in> set (journal_LatestByOperation es). j_Kind e = ''verify''
       \<and> Service_Replay [e] s' = (s', None)
       \<and> (\<exists>sn. Service_Snapshot (j_SnapshotID e) s' = Some sn \<and> s_Generation sn \<noteq> j_Generation e))"
    if err: "Service_Replay es s = (s', Some x)"
  proof -
    obtain e where e: "e \<in> set (journal_LatestByOperation es)" "j_Kind e = ''verify''"
      "replayed s' (j_Operation e) = j_Generation e" "x = ErrConflict"
      "\<exists>sn. Service_Snapshot (j_SnapshotID e) s' = Some sn \<and> s_Generation sn \<noteq> j_Generation e"
      using replay_loop_error [of "journal_LatestByOperation es" s s' x] err by (auto simp: Service_Replay_def)
    then have "Service_Replay [e] s' = (s', None)"
      unfolding Service_Replay_def one by (intro replay_loop_done) simp
    with e show ?thesis by blast
  qed
  moreover have "Service_Snapshot i (fst (Service_Replay [e] s)) = Some (sn\<lparr>s_State := SnapshotVerified\<rparr>)"
    if "Service_Snapshot i s = Some sn" "j_Kind e = ''verify''" "j_SnapshotID e = i"
      "j_Generation e = s_Generation sn" "replayed s (j_Operation e) < j_Generation e"
    using that by (simp add: Service_Replay_def one replay_one_def replayed_def Service_Snapshot_def
        catalog_SetState_def Let_def gomap_simps)
  ultimately show ?thesis by blast
qed

lemma service_replay_gaps_witness:
  "let sn = (sample_snapshot ''s'')\<lparr>s_State := SnapshotExpired, s_Generation := 1\<rparr>;
       s = (Service_New 1 0)\<lparr>sv_catalog := (catalog_New 1)\<lparr>cat_snapshots := mput mempty ''s'' sn\<rparr>\<rparr>
   in Service_Snapshot ''s'' (fst (Service_Replay [verify_entry 1] s)) = Some (sn\<lparr>s_State := SnapshotVerified\<rparr>)"
proof -
  let ?sn = "(sample_snapshot ''s'')\<lparr>s_State := SnapshotExpired, s_Generation := 1\<rparr>"
  let ?s = "(Service_New 1 0)\<lparr>sv_catalog := (catalog_New 1)\<lparr>cat_snapshots := mput mempty ''s'' ?sn\<rparr>\<rparr>"
  have "Service_Snapshot ''s'' ?s = Some ?sn \<and> s_State ?sn = SnapshotExpired \<and> j_Kind (verify_entry 1) = ''verify''
    \<and> j_SnapshotID (verify_entry 1) = ''s'' \<and> j_Generation (verify_entry 1) = s_Generation ?sn
    \<and> replayed ?s (j_Operation (verify_entry 1)) < j_Generation (verify_entry 1)"
    by (simp add: Service_Snapshot_def verify_entry_def newEntry_def replayed_def Service_New_def)
  with service_replay_gaps [of "[]" ?s ?s ErrConflict "''s''" ?sn "verify_entry 1"] show ?thesis
    unfolding Let_def by blast
qed

section \<open>The retry worker\<close>

text \<open>
  C28: \<open>RunRetry\<close> on every branch, for a queue that is well formed before and after the sender ran
  (\<open>s1\<close> is the service then). With nothing due it reports so. Otherwise it sends the first due
  task in the order of due time and id. A success removes the task. A failure stores it with one
  more attempt and the new due time, unless its generation was cancelled while it was being sent:
  then it is dropped and the cancellation reported.
\<close>

theorem service_run_retry_spec:
  assumes "retry_Due (ck 0) (sv_retries s) = task # rest" and "sender task s = (s1, res)"
  shows "(\<forall>u \<in> set rest. \<not> due_before u task)
    \<and> (let (s', e) = Service_RunRetry ck sender delay s; q = sv_retries s1; q' = sv_retries s' in
      (case res of
        None \<Rightarrow> e = None \<and> mget (q_tasks q') (t_ID task) = None
      | Some _ \<Rightarrow>
          if t_Generation task \<le> cancel_mark q (t_SnapshotID task)
          then e = Some ErrCancelled \<and> mget (q_tasks q') (t_ID task) = None
          else e = None \<and> mget (q_tasks q') (t_ID task) =
            Some (task\<lparr>t_Attempt := wrap64 (t_Attempt task + 1), t_DueAt := tAdd (ck 1) delay\<rparr>))
      \<and> (\<forall>j. j \<noteq> t_ID task \<longrightarrow> mget (q_tasks q') j = mget (q_tasks q) j)
      \<and> q_cancelled q' = q_cancelled q)"
proof
  have "sorted (map due_key (retry_Due (ck 0) (sv_retries s)))" by (simp add: retry_Due_sort)
  then show "\<forall>u \<in> set rest. \<not> due_before u task" using assms(1) by (auto simp: due_before_key not_less)
  show "let (s', e) = Service_RunRetry ck sender delay s; q = sv_retries s1; q' = sv_retries s' in
      (case res of
        None \<Rightarrow> e = None \<and> mget (q_tasks q') (t_ID task) = None
      | Some _ \<Rightarrow>
          if t_Generation task \<le> cancel_mark q (t_SnapshotID task)
          then e = Some ErrCancelled \<and> mget (q_tasks q') (t_ID task) = None
          else e = None \<and> mget (q_tasks q') (t_ID task) =
            Some (task\<lparr>t_Attempt := wrap64 (t_Attempt task + 1), t_DueAt := tAdd (ck 1) delay\<rparr>))
      \<and> (\<forall>j. j \<noteq> t_ID task \<longrightarrow> mget (q_tasks q') j = mget (q_tasks q) j)
      \<and> q_cancelled q' = q_cancelled q"
    using assms
    by (cases res)
      (auto simp: Service_RunRetry_def retry_defs cancel_mark_def Let_def gomap_simps)
qed

lemma service_run_retry_witness:
  "let s = (Service_New 1 0)\<lparr>sv_retries := fst (retry_Schedule (sample_task ''a'' 2 0) retry_New)\<rparr>
   in snd (Service_RunRetry (\<lambda>_. Time 5 UTC) (\<lambda>t s. (Service_CancelRetries ''s'' 2 s, Some ErrNotFound)) 10 s)
     = Some ErrCancelled"
proof -
  let ?s = "(Service_New 1 0)\<lparr>sv_retries := fst (retry_Schedule (sample_task ''a'' 2 0) retry_New)\<rparr>"
  let ?send = "\<lambda>t s. (Service_CancelRetries ''s'' 2 s, Some ErrNotFound)"
  have "retry_Due (Time 5 UTC) (sv_retries ?s) = [sample_task ''a'' 2 0]"
    by (simp add: retry_Due_def retry_defs sample_task_def entries_mput)
  from service_run_retry_spec [where ck = "\<lambda>_. Time 5 UTC" and sender = ?send, OF this refl, of 10] show ?thesis
    by (simp add: Let_def split_beta cancel_mark_def Service_CancelRetries_def retry_Cancel_def retry_Schedule_def
        retry_New_def sample_task_def)
qed

section \<open>Migration\<close>

text \<open>
  A migration that cannot be journalled is reported as an error, but it has taken place: the
  version is the new one and the snapshot counts as migrated, so repeating the call is refused as
  a version conflict (for a real change of version), also after the journal is open again.
\<close>

theorem service_migration_half_done:
  assumes "log_closed (sv_journal s)" and "Service_MigrationVersion i s = from" and "from < to"
  shows "\<exists>s'. Service_MigrateManifest None ck i from to s = (s', Some ErrJournalClosed)
    \<and> Service_MigrationVersion i s' = to \<and> Service_Migrated i s'
    \<and> Service_JournalEntries s' = Service_JournalEntries s
    \<and> (\<forall>ck'. snd (Service_MigrateManifest None ck' i from to (Service_OpenJournal s')) = Some ErrVersionConflict)"
proof -
  have "\<not> (case mget (mig_versions (run_store (sv_migration s))) i of None \<Rightarrow> False | Some v \<Rightarrow> to < v)"
    using assms(2,3) by (auto simp: Service_MigrationVersion_def migration_Version_def mgetd_def split: option.splits)
  then have "\<exists>r. migration_Migrate None i from to (sv_migration s) = (r, None)
      \<and> migration_Version i (run_store r) = to \<and> migration_Migrated i r"
    using assms(2)
    by (auto simp: migration_defs Service_MigrationVersion_def mgetd_def gomap_simps split: option.splits)
  then obtain r where r: "migration_Migrate None i from to (sv_migration s) = (r, None)"
    "migration_Version i (run_store r) = to" "migration_Migrated i r" by blast
  have "svAppend e (s\<lparr>sv_migration := r\<rparr>) = (s\<lparr>sv_migration := r\<rparr>, Some ErrJournalClosed)" for e
    using assms(1) by (intro svAppend_closed) simp
  with r assms(3) show ?thesis
    by (auto simp: Service_MigrateManifest_def Service_MigrationVersion_def Service_Migrated_def
        Service_JournalEntries_def Service_OpenJournal_def migration_Migrate_def migrate_check_def)
qed

lemma service_migration_witness:
  "\<exists>s'. Service_MigrateManifest None (\<lambda>_. zeroTime) ''s'' 0 1 (Service_CloseJournal (Service_New 1 0))
       = (s', Some ErrJournalClosed) \<and> Service_MigrationVersion ''s'' s' = 1"
  using service_migration_half_done [of "Service_CloseJournal (Service_New 1 0)" "''s''" 0 1 "\<lambda>_. zeroTime"]
  by (auto simp: Service_CloseJournal_def Service_New_def journal_Close_def Service_MigrationVersion_def migration_defs)

section \<open>Garbage collection\<close>

definition journalled :: "Service \<Rightarrow> string \<Rightarrow> bool" where
  "journalled s i \<longleftrightarrow> i \<noteq> [] \<and> (\<exists>e \<in> set (Service_JournalEntries s). j_SnapshotID e = i)"

definition mirrored :: "Service \<Rightarrow> string \<Rightarrow> bool" where
  "mirrored s i \<longleftrightarrow> (\<exists>r \<in> set (Service_MirrorRecords s). sr_SnapshotID r = i)"

lemma fold_put_if:
  "mget (fold (\<lambda>x m. if P x then mput m (f x) () else m) xs m) k \<noteq> None \<longleftrightarrow>
     mget m k \<noteq> None \<or> (\<exists>x \<in> set xs. P x \<and> f x = k)"
  by (induction xs arbitrary: m) (auto simp: gomap_simps)

lemma gcIDs_mem: "mget (gcIDs s) i \<noteq> None \<longleftrightarrow> journalled s i \<or> mirrored s i"
proof -
  have "mget (gcIDs s) i \<noteq> None \<longleftrightarrow>
      mget (fold (\<lambda>record m. mput m (sr_SnapshotID record) ()) (mirror_Snapshot (sv_mirror s)) mempty) i \<noteq> None
      \<or> (\<exists>e \<in> set (journal_Entries (sv_journal s)). j_SnapshotID e \<noteq> [] \<and> j_SnapshotID e = i)"
    unfolding gcIDs_def by (rule fold_put_if)
  also have "mget (fold (\<lambda>record m. mput m (sr_SnapshotID record) ()) (mirror_Snapshot (sv_mirror s)) mempty) i \<noteq> None
      \<longleftrightarrow> mirrored s i"
    using fold_put_if [of "\<lambda>_. True" sr_SnapshotID "mirror_Snapshot (sv_mirror s)" mempty i]
    by (simp add: mirrored_def Service_MirrorRecords_def)
  finally show ?thesis by (auto simp: journalled_def Service_JournalEntries_def)
qed

lemma fold_gc_Pin: "gc_Pinned i (fold (\<lambda>r. gc_Pin (sr_SnapshotID r)) rs g) \<longleftrightarrow>
     gc_Pinned i g \<or> (\<exists>r \<in> set rs. sr_SnapshotID r = i)"
  by (induction rs arbitrary: g) (auto simp: gc_Pinned_def gc_Pin_def)

lemma map_filter_ids:
  assumes "distinct ids" and "\<And>i sn. f i = Some sn \<Longrightarrow> s_ID sn = i"
  shows "distinct (map s_ID (List.map_filter f ids))"
  using assms(1)
proof (induction ids)
  case (Cons i ids)
  have "i \<notin> s_ID ` set (List.map_filter f ids)" using Cons.prems assms(2) by (auto simp: set_map_filter)
  with Cons assms(2) show ?case by (auto simp: List.map_filter_simps split: option.split)
qed (simp add: List.map_filter_simps)

text \<open>
  C15: \<open>GcCollect\<close> returns exactly the snapshots of the catalog that the journal mentions, that are
  at least as old as the window, and that no site mirrors, nothing pins and no restore refers to;
  each once, in order, and the same list for every order in which the ids can be visited. It
  changes nothing but the pins, and the catalog keeps what was returned.
\<close>

theorem service_gc_collect_spec:
  assumes "catalog_inv (sv_catalog s)" and "gc_id_order ids s" and "Service_GcCollect ids now keep s = (s', r)"
  shows "set r = {i. \<exists>sn. Service_Snapshot i s = Some sn \<and> journalled s i \<and> keep \<le> tSub now (s_CreatedAt sn)
      \<and> \<not> mirrored s i \<and> \<not> Service_GcPinned i s \<and> \<not> catalog_HasRestoreRef i (sv_catalog s)}
    \<and> sorted_wrt (<) r
    \<and> (\<forall>ids'. gc_id_order ids' s \<longrightarrow> snd (Service_GcCollect ids' now keep s) = r)
    \<and> s' = s\<lparr>sv_gcStore := sv_gcStore s'\<rparr>"
proof -
  let ?g = "fold (\<lambda>r. gc_Pin (sr_SnapshotID r)) (mirror_Snapshot (sv_mirror s)) (sv_gcStore s)"
  let ?get = "\<lambda>i. catalog_Snapshot i (sv_catalog s)"
  let ?ref = "\<lambda>i. catalog_HasRestoreRef i (sv_catalog s)"
  let ?ok = "\<lambda>sn. \<not> tSub now (s_CreatedAt sn) < keep \<and> \<not> gc_Pinned (s_ID sn) ?g \<and> \<not> ?ref (s_ID sn)"
  let ?res = "\<lambda>ids. sort (map s_ID (filter ?ok (List.map_filter ?get ids)))"
  have res: "snd (Service_GcCollect ids now keep s) = ?res ids" for ids
    by (simp add: Service_GcCollect_def Let_def gc_Collect_def collect_loop_filter)
  have id: "?get i = Some sn \<Longrightarrow> s_ID sn = i" for i sn using assms(1) by (auto simp: catalog_inv_def)
  have mem: "set ids = {i. journalled s i \<or> mirrored s i}" "distinct ids" if "gc_id_order ids s" for ids
  proof -
    have "set ids = set (mkeys (gcIDs s))" using that unfolding gc_id_order_def by (metis set_mset_mset)
    then show "set ids = {i. journalled s i \<or> mirrored s i}" using mkeys_set [of _ "gcIDs s"] gcIDs_mem by blast
    show "distinct ids"
      using that unfolding gc_id_order_def by (metis DAList.impl_of_distinct mset_eq_imp_distinct_iff)
  qed
  let ?S = "{i. \<exists>sn. Service_Snapshot i s = Some sn \<and> journalled s i \<and> keep \<le> tSub now (s_CreatedAt sn)
      \<and> \<not> mirrored s i \<and> \<not> Service_GcPinned i s \<and> \<not> ?ref i}"
  have set: "set (?res ids) = ?S" and strict: "sorted_wrt (<) (?res ids)" if "gc_id_order ids s" for ids
  proof -
    have p: "gc_Pinned i ?g \<longleftrightarrow> Service_GcPinned i s \<or> mirrored s i" for i
      by (simp add: fold_gc_Pin Service_GcPinned_def mirrored_def Service_MirrorRecords_def)
    show "set (?res ids) = ?S"
      using id mem(1) [OF that]
      by (force simp: set_map_filter p Service_Snapshot_def not_less image_iff)
    have "distinct (map s_ID (List.map_filter ?get ids))" by (rule map_filter_ids) (use mem(2) [OF that] id in auto)
    then show "sorted_wrt (<) (?res ids)" by (simp add: strict_sorted_iff distinct_map_filter)
  qed
  have r: "r = ?res ids" using res [of ids] assms(3) by simp
  have "snd (Service_GcCollect ids' now keep s) = r" if "gc_id_order ids' s" for ids'
    unfolding res r using set [OF that] set [OF assms(2)] strict [OF that] strict [OF assms(2)]
    by (intro strict_sorted_equal) simp_all
  moreover have "s' = s\<lparr>sv_gcStore := sv_gcStore s'\<rparr>" using assms(3) by (auto simp: Service_GcCollect_def Let_def)
  ultimately show ?thesis using r set [OF assms(2)] strict [OF assms(2)] by blast
qed

text \<open>A published snapshot that the journal mentions and nothing protects is collected.\<close>

definition gc_service :: Service where
  "gc_service = fst (svAppend (verify_entry 1) restore_service)"

lemma gc_service_fields:
  "sv_catalog gc_service = sv_catalog restore_service" "sv_gcStore gc_service = gc_New"
  "Service_MirrorRecords gc_service = []"
  "Service_JournalEntries gc_service =
     [(verify_entry 1)\<lparr>j_Sequence := 1, j_RecordedAt := tUTC (j_RecordedAt (verify_entry 1))\<rparr>]"
proof -
  have s: "gc_service = restore_service\<lparr>sv_journal := fst (journal_Append (verify_entry 1) (sv_journal restore_service))\<rparr>"
    by (simp add: gc_service_def svAppend_open restore_service_def Service_New_def journal_New_def)
  show "sv_catalog gc_service = sv_catalog restore_service" "sv_gcStore gc_service = gc_New"
    "Service_MirrorRecords gc_service = []"
    "Service_JournalEntries gc_service =
       [(verify_entry 1)\<lparr>j_Sequence := 1, j_RecordedAt := tUTC (j_RecordedAt (verify_entry 1))\<rparr>]"
    unfolding s by (simp_all add: restore_service_def Service_New_def Service_JournalEntries_def journal_Append_def journal_New_def
        journal_Entries_def Let_def Service_MirrorRecords_def mirror_New_def mirror_Snapshot_def)
qed

lemma service_gc_collect_witness: "snd (Service_GcCollect [''s''] (Time 100 UTC) 10 gc_service) = [''s'']"
proof -
  let ?s = gc_service
  note f = gc_service_fields
  have ord: "gc_id_order [''s''] ?s"
    using f(3,4) by (simp add: gc_id_order_def gcIDs_def Service_JournalEntries_def Service_MirrorRecords_def
        verify_entry_def newEntry_def entries_mput)
  obtain s' r where c: "Service_GcCollect [''s''] (Time 100 UTC) 10 ?s = (s', r)" by fastforce
  have "catalog_inv (sv_catalog ?s)" by (simp add: f restore_service_inv)
  from service_gc_collect_spec [OF this ord c]
  have "set r = {i. \<exists>sn. Service_Snapshot i ?s = Some sn \<and> journalled ?s i \<and> 10 \<le> tSub (Time 100 UTC) (s_CreatedAt sn)
      \<and> \<not> mirrored ?s i \<and> \<not> Service_GcPinned i ?s \<and> \<not> catalog_HasRestoreRef i (sv_catalog ?s)}"
    "sorted_wrt (<) r" by blast+
  moreover have "{i. \<exists>sn. Service_Snapshot i ?s = Some sn \<and> journalled ?s i \<and> 10 \<le> tSub (Time 100 UTC) (s_CreatedAt sn)
      \<and> \<not> mirrored ?s i \<and> \<not> Service_GcPinned i ?s \<and> \<not> catalog_HasRestoreRef i (sv_catalog ?s)} = {''s''}"
    by (auto simp: Service_Snapshot_def f journalled_def mirrored_def Service_GcPinned_def gc_New_def gc_Pinned_def
        catalog_HasRestoreRef_def restore_service_def catalog_New_def sample_published_def verify_entry_def newEntry_def
        tSub_def zeroTime_def maxInt64_def minInt64_def gomap_simps split: if_splits)
  ultimately have "r = [''s'']" by (intro strict_sorted_equal) simp_all
  with c show ?thesis by simp
qed

end
