(* ===== verification/ServiceInvariant.thy ===== *)
theory ServiceInvariant
  imports ServiceRestore
begin

text \<open>
  Runs of the service: any sequence of its operations with any arguments, one after another, and
  what every run keeps. Each operation only appends to the journal and to the ledger and keeps the
  invariant of the catalog; these are the three components that several workflows share.

  The retry worker calls a sender that may use the service itself: what happens meanwhile is a run.
\<close>

section \<open>What an operation may do to the shared components\<close>

definition audit_grows :: "Ledger \<Rightarrow> Ledger \<Rightarrow> bool" where
  "audit_grows a b \<longleftrightarrow> (\<exists>ops. b = fold audit_step ops a)"

definition journal_grows :: "Log \<Rightarrow> Log \<Rightarrow> bool" where
  "journal_grows a b \<longleftrightarrow> (\<exists>ops. b = fold journal_step ops a)"

lemma audit_grows_refl [simp]: "audit_grows a a"
  unfolding audit_grows_def by (rule exI [of _ "[]"]) simp

lemma journal_grows_refl [simp]: "journal_grows a a"
  unfolding journal_grows_def by (rule exI [of _ "[]"]) simp

lemma audit_grows_trans: "\<lbrakk> audit_grows a b; audit_grows b c \<rbrakk> \<Longrightarrow> audit_grows a c"
  unfolding audit_grows_def by (metis comp_apply fold_append)

lemma journal_grows_trans: "\<lbrakk> journal_grows a b; journal_grows b c \<rbrakk> \<Longrightarrow> journal_grows a c"
  unfolding journal_grows_def by (metis comp_apply fold_append)

lemma audit_grows_Record [simp]: "audit_grows a (fst (audit_Record k ob d now a))"
  unfolding audit_grows_def by (rule exI [of _ "[(k, ob, d, now)]"]) simp

lemma journal_grows_step: "journal_grows l (journal_step op l)"
  unfolding journal_grows_def by (rule exI [of _ "[op]"]) simp

lemma journal_grows_Append: "journal_Append e l = (l', r) \<Longrightarrow> journal_grows l l'"
  using journal_grows_step [of l "JAppend e"] by simp

lemma journal_grows_closed: "journal_grows l (journal_Close l)" "journal_grows l (journal_Open l)"
  using journal_grows_step [of l JClose] journal_grows_step [of l JOpen] by simp_all

definition evolves :: "Service \<Rightarrow> Service \<Rightarrow> bool" where
  "evolves s t \<longleftrightarrow> audit_grows (sv_audit s) (sv_audit t) \<and> journal_grows (sv_journal s) (sv_journal t)
     \<and> (catalog_inv (sv_catalog s) \<longrightarrow> catalog_inv (sv_catalog t))"

lemma evolves_refl [simp]: "evolves s s"
  by (simp add: evolves_def)

lemma evolves_trans: "\<lbrakk> evolves s t; evolves t u \<rbrakk> \<Longrightarrow> evolves s u"
  unfolding evolves_def using audit_grows_trans journal_grows_trans by blast

text \<open>The other components are of no account.\<close>

lemma evolves_frame [simp]:
  "evolves s (t\<lparr>sv_leases := ls\<rparr>) = evolves s t" "evolves s (t\<lparr>sv_retries := q\<rparr>) = evolves s t"
  "evolves s (t\<lparr>sv_cursors := cs\<rparr>) = evolves s t" "evolves s (t\<lparr>sv_verifications := vs\<rparr>) = evolves s t"
  "evolves s (t\<lparr>sv_checkpoints := cps\<rparr>) = evolves s t" "evolves s (t\<lparr>sv_manifests := ms\<rparr>) = evolves s t"
  "evolves s (t\<lparr>sv_telemetry := tel\<rparr>) = evolves s t" "evolves s (t\<lparr>sv_destinations := ds\<rparr>) = evolves s t"
  "evolves s (t\<lparr>sv_mirror := mir\<rparr>) = evolves s t" "evolves s (t\<lparr>sv_gcStore := g\<rparr>) = evolves s t"
  "evolves s (t\<lparr>sv_migration := mig\<rparr>) = evolves s t" "evolves s (t\<lparr>sv_quarantine := qs\<rparr>) = evolves s t"
  "evolves s (t\<lparr>sv_watermark := w\<rparr>) = evolves s t" "evolves s (t\<lparr>sv_orchestrationPolicies := ps\<rparr>) = evolves s t"
  "evolves s (t\<lparr>sv_replayGenerations := rg\<rparr>) = evolves s t" "evolves s (t\<lparr>sv_generation := gen\<rparr>) = evolves s t"
  "evolves s (t\<lparr>sv_nextID := n\<rparr>) = evolves s t" "evolves s (t\<lparr>sv_replication := rep\<rparr>) = evolves s t"
  "evolves s (t\<lparr>sv_orchestration := orc\<rparr>) = evolves s t"
  by (simp_all add: evolves_def)

lemma evolves_catalog:
  "\<lbrakk> evolves s t; catalog_inv (sv_catalog t) \<Longrightarrow> catalog_inv c \<rbrakk> \<Longrightarrow> evolves s (t\<lparr>sv_catalog := c\<rparr>)"
  by (auto simp: evolves_def)

lemma evolves_journal: "\<lbrakk> evolves s t; journal_grows (sv_journal t) l \<rbrakk> \<Longrightarrow> evolves s (t\<lparr>sv_journal := l\<rparr>)"
  unfolding evolves_def using journal_grows_trans by auto

lemma evolves_svAudit: "evolves s t \<Longrightarrow> evolves s (svAudit k ob d now t)"
  unfolding svAudit_def by (rule evolves_trans) (auto simp: evolves_def)

lemma evolves_svAppend: "\<lbrakk> svAppend e t = (t', r); evolves s t \<rbrakk> \<Longrightarrow> evolves s t'"
  by (auto simp: svAppend_def split: prod.splits sum.splits intro!: evolves_journal journal_grows_Append)

lemma svAppend_evolves: "svAppend e s = (t, r) \<Longrightarrow> evolves s t"
  by (rule evolves_svAppend [OF _ evolves_refl])

lemmas evolve_rules = evolves_catalog evolves_journal evolves_svAudit

lemmas catalog_inv_ops = catalog_inv_ReserveDigest catalog_inv_ReleaseDigest catalog_inv_ForgetOperation
  catalog_inv_StageChunk catalog_inv_CommitSnapshot catalog_inv_SetState catalog_inv_AddRestoreReference
  catalog_inv_RemoveRestoreReference

section \<open>Capture, verification, restore\<close>

lemma evolves_BeginCapture: "evolves s (fst (Service_BeginCapture ctxErr ck i ow ttl s))"
  by (auto simp: Service_BeginCapture_def Let_def split: option.split prod.split sum.split)

lemma evolves_StageChunk: "evolves s (fst (Service_StageChunk ck h i d s))"
proof -
  have "catalog_inv (sv_catalog s) \<Longrightarrow> catalog_inv (sv_catalog (fst (Service_StageChunk ck h i d s)))"
    using catalog_inv_ReserveDigest [of "sv_catalog s" "h_Operation h" "sumHex d"]
      catalog_inv_StageChunk [of "fst (catalog_ReserveDigest (h_Operation h) (sumHex d) (sv_catalog s))" "h_Operation h"
        "\<lparr>c_Index = i, c_Digest = sumHex d, c_Data = d\<rparr>"]
    by (auto simp: Service_StageChunk_def Let_def catalog_inv_ReleaseDigest split: option.split prod.split)
  then show ?thesis
    by (auto simp: Service_StageChunk_def evolves_def Let_def split: option.split prod.split)
qed

lemma evolves_commit_failed: "evolves s t \<Longrightarrow> evolves s (commit_failed h t)"
  by (auto simp: commit_failed_def intro!: evolves_catalog catalog_inv_ForgetOperation)

lemma evolves_commit_body: "evolves s (fst (commit_body diff ck h b full md s))"
proof (cases "lease_Validate (captureResource (h_SnapshotID h)) (h_Owner h) (h_LeaseEpoch h) (ck 1) (sv_leases s)")
  case None
  let ?en = "newEntry (h_Generation h) ''publish'' (h_SnapshotID h) (h_Operation h)
    (case catalog_Snapshot b (sv_catalog s) of Some base \<Rightarrow> diff (s_Metadata base) md | None \<Rightarrow> ''initial snapshot'') (ck 2)"
  let ?sn = "\<lparr>s_ID = h_SnapshotID h, s_BaseID = b, s_Operation = h_Operation h, s_Generation = h_Generation h,
    s_Full = full, s_State = SnapshotStaged, s_Metadata = cloneMetadata md, s_Chunks = [], s_CreatedAt = ck 2\<rparr>"
  obtain s1 r where a: "svAppend ?en s = (s1, r)" by fastforce
  obtain c rc where c: "catalog_CommitSnapshot ?sn (sv_catalog s1) = (c, rc)" by fastforce
  obtain ls rl where l: "lease_Release (captureResource (h_SnapshotID h)) (h_Owner h) (h_LeaseEpoch h) (sv_leases s1) = (ls, rl)"
    by fastforce
  have e: "evolves s s1" using a by (rule svAppend_evolves)
  have "catalog_inv (sv_catalog s1) \<Longrightarrow> catalog_inv c" using catalog_inv_CommitSnapshot [of "sv_catalog s1" ?sn] c by simp
  with e have ec: "evolves s (s1\<lparr>sv_catalog := c\<rparr>)" by (rule evolves_catalog)
  show ?thesis
    unfolding commit_body_def Let_def None option.case a c l prod.case
    by (cases r; cases rc; cases rl; simp add: c l e ec evolves_commit_failed)
qed (simp add: commit_body_def Let_def)

lemma evolves_CommitCapture: "evolves s (fst (Service_CommitCapture diff host ck h b full md s))"
  using evolves_commit_body [of s diff ck h b full md]
  by (simp add: Service_CommitCapture_def observeCapture_def Let_def split_beta)

lemma evolves_AbortCapture: "evolves s (fst (Service_AbortCapture h s))"
  by (auto simp: Service_AbortCapture_def Let_def split_beta intro!: evolves_catalog catalog_inv_ForgetOperation)

lemma SetState_inv: "\<lbrakk> catalog_SetState i g st c = (c', r); catalog_inv c \<rbrakk> \<Longrightarrow> catalog_inv c'"
  using catalog_inv_SetState [of c i g st] by simp

lemma evolves_VerifySnapshot: "evolves s (fst (Service_VerifySnapshot ck i s))"
proof -
  have "evolves s (fst (commitVerification ck sn rc d s))" for sn rc d
    unfolding commitVerification_def
    by (auto split: option.split prod.split dest!: svAppend_evolves intro!: evolves_catalog dest: SetState_inv)
  then show ?thesis
    by (auto simp: Service_VerifySnapshot_def Let_def split: option.split prod.split) (metis fst_conv)+
qed

lemma evolves_BeginRestore: "evolves s (fst (Service_BeginRestore ck i ow ttl s))"
  unfolding Service_BeginRestore_def Let_def
  by (auto split: option.split prod.split sum.split intro!: evolves_catalog catalog_inv_AddRestoreReference)

lemma evolves_AdvanceRestore: "evolves s (fst (Service_AdvanceRestore plan received s))"
  by (simp add: Service_AdvanceRestore_def Let_def split_beta)

lemma evolves_FinishRestore: "evolves s (fst (Service_FinishRestore ck plan ow s))"
proof -
  have c: "catalog_RemoveRestoreReference p i c = (c', r) \<Longrightarrow> catalog_inv c \<Longrightarrow> catalog_inv c'" for p i c c' r
    using catalog_inv_RemoveRestoreReference [of c p i] by simp
  show ?thesis
    unfolding Service_FinishRestore_def Let_def
    by (auto split: option.split prod.split bool.split dest!: svAppend_evolves intro!: evolves_catalog dest: c)
qed

lemma evolves_ApplyRetention: "expire_order (sv_catalog s) all \<Longrightarrow> evolves s (fst (Service_ApplyRetention all keep s))"
  by (auto simp: Service_ApplyRetention_def Let_def split_beta intro!: evolves_catalog catalog_inv_ExpireUnprotected)

lemma evolves_Rollback: "evolves s (fst (Service_Rollback it ck i s))"
  unfolding Service_Rollback_def by (auto split: option.split prod.split dest!: svAppend_evolves)

lemma evolves_Replay: "evolves s (fst (Service_Replay es s))"
proof -
  have one: "evolves s (fst (replay_one e s))" for e s
    unfolding replay_one_def Let_def
    by (auto split: option.split prod.split intro!: evolves_catalog dest: SetState_inv)
  have "evolves s (fst (replay_loop es s))" for es
  proof (induction es arbitrary: s)
    case (Cons e es)
    obtain s1 r where r: "replay_one e s = (s1, r)" by fastforce
    then have "evolves s s1" using one [of s e] by simp
    with Cons [of s1] r show ?case by (cases r) (auto intro: evolves_trans)
  qed simp
  then show ?thesis by (simp add: Service_Replay_def)
qed

section \<open>Retries and manifests\<close>

lemma evolves_ScheduleRetry: "evolves s (fst (Service_ScheduleRetry i g due s))"
  by (auto simp: Service_ScheduleRetry_def Let_def split: prod.split option.split)

lemma evolves_CancelRetries: "evolves s (Service_CancelRetries i g s)"
  by (simp add: Service_CancelRetries_def)

lemma evolves_RunRetry:
  assumes "\<And>t rest. retry_Due (ck 0) (sv_retries s) = t # rest \<Longrightarrow> evolves s (fst (sender t s))"
  shows "evolves s (fst (Service_RunRetry ck sender delay s))"
proof (cases "retry_Due (ck 0) (sv_retries s)")
  case (Cons t rest)
  obtain s1 r where r: "sender t s = (s1, r)" by fastforce
  with assms [OF Cons] have "evolves s s1" by simp
  with Cons r show ?thesis by (cases r) (auto simp: Service_RunRetry_def Let_def split_beta)
qed (simp add: Service_RunRetry_def)

lemma evolves_MaterializeManifest: "evolves s (fst (Service_MaterializeManifest marshal ck i s))"
  unfolding Service_MaterializeManifest_def Let_def
  by (auto split: option.split prod.split sum.split intro!: evolves_svAudit)

lemma evolves_VerifyMaterializedManifest: "evolves s (fst (Service_VerifyMaterializedManifest ck i s))"
  by (auto simp: Service_VerifyMaterializedManifest_def split: option.split intro!: evolves_svAudit)

section \<open>Watermarks, mirrors, garbage collection, migration, quarantine\<close>

lemma evolves_AdvanceWatermark: "evolves s (fst (Service_AdvanceWatermark sub off g s))"
  by (simp add: Service_AdvanceWatermark_def Let_def split_beta)

lemma evolves_RegisterMirrorSite: "evolves s (fst (Service_RegisterMirrorSite site s))"
  by (simp add: Service_RegisterMirrorSite_def Let_def split_beta)

lemma evolves_ApplyMirrorUpdate: "evolves s (fst (Service_ApplyMirrorUpdate ck site sn s))"
  unfolding Service_ApplyMirrorUpdate_def Let_def by (auto split: prod.split option.split intro!: evolves_svAudit)

lemma evolves_GcCollect: "evolves s (fst (Service_GcCollect ids now keep s))"
  by (simp add: Service_GcCollect_def Let_def)

lemma evolves_MigrateManifest: "evolves s (fst (Service_MigrateManifest ctxErr ck i from to s))"
proof -
  have "evolves s t" if "svAppend e (s\<lparr>sv_migration := m\<rparr>) = (t, r)" for e m t r
    by (rule evolves_svAppend [OF that]) simp
  then show ?thesis
    unfolding Service_MigrateManifest_def by (auto split: prod.split option.split intro!: evolves_svAudit)
qed

lemma evolves_QuarantineChunk: "evolves s (fst (Service_QuarantineChunk ck d reason s))"
  unfolding Service_QuarantineChunk_def
  by (auto split: prod.split option.split dest!: svAppend_evolves intro!: evolves_svAudit)

lemma evolves_ReverifyChunk: "evolves s (fst (Service_ReverifyChunk ck d matches verr s))"
  by (simp add: Service_ReverifyChunk_def Let_def split_beta)

lemma evolves_QuarantineClear: "evolves s (fst (Service_QuarantineClear d s))"
  by (simp add: Service_QuarantineClear_def Let_def split_beta)

section \<open>Replication and orchestration\<close>

text \<open>What the dispatcher and the controller may do to the log and the ledger they are given.\<close>

definition logs_grow :: "Log option \<Rightarrow> Ledger option \<Rightarrow> Log option \<Rightarrow> Ledger option \<Rightarrow> bool" where
  "logs_grow l a l' a' \<longleftrightarrow> rel_option journal_grows l l' \<and> rel_option audit_grows a a'"

abbreviation disp_grows :: "Dispatcher \<Rightarrow> Dispatcher \<Rightarrow> bool" where
  "disp_grows d d' \<equiv> logs_grow (di_journal d) (di_audit d) (di_journal d') (di_audit d')"

lemma logs_grow_refl [simp]: "logs_grow l a l a"
  by (simp add: logs_grow_def option.rel_refl)

lemma logs_grow_trans: "\<lbrakk> logs_grow l a l1 a1; logs_grow l1 a1 l2 a2 \<rbrakk> \<Longrightarrow> logs_grow l a l2 a2"
  unfolding logs_grow_def by (auto elim!: option.rel_cases intro: journal_grows_trans audit_grows_trans)

lemma logs_grow_auditIf: "logs_grow l a l' (di_audit d) \<Longrightarrow> logs_grow l a l' (di_audit (auditIf k ob de t d))"
proof (erule logs_grow_trans)
  show "logs_grow l' (di_audit d) l' (di_audit (auditIf k ob de t d))"
    by (cases "di_audit d") (simp_all add: auditIf_def logs_grow_def option.rel_refl)
qed

lemma disp_grows_releasePlan [simp]:
  "di_journal (releasePlan p d) = di_journal d" "di_audit (releasePlan p d) = di_audit d"
  by (simp_all add: releasePlan_def)

lemma disp_grows_reservePlan: "disp_grows d (fst (reservePlan ck p d))"
  by (auto simp: reservePlan_def split: prod.split bool.split intro!: logs_grow_auditIf)

lemma disp_grows_journalPlan: "disp_grows d (fst (journalPlan ck p d))"
proof (cases "di_journal d")
  case (Some l)
  have "logs_grow (Some l) (di_audit d) (Some l') (di_audit d)" if "journal_Append e l = (l', r)" for e l' r
    using journal_grows_Append [OF that] by (simp add: logs_grow_def option.rel_refl)
  with Some show ?thesis
    unfolding journalPlan_def Some Let_def
    by (auto simp: Some split: prod.split sum.split if_split intro!: logs_grow_auditIf)
qed (simp add: journalPlan_def logs_grow_def option.rel_refl)

lemma disp_grows_finishPlan: "disp_grows d (fst (finishPlan ck p d))"
proof -
  obtain d1 r1 where 1: "reservePlan ck p d = (d1, r1)" by fastforce
  obtain d2 r2 where 2: "journalPlan ck p d1 = (d2, r2)" by fastforce
  have g1: "disp_grows d d1" using disp_grows_reservePlan [of d ck p] 1 by simp
  have "disp_grows d1 d2" using disp_grows_journalPlan [of d1 ck p] 2 by simp
  with g1 have "disp_grows d d2" by (rule logs_grow_trans)
  with g1 show ?thesis by (auto simp: finishPlan_def 1 2 split: option.split intro!: logs_grow_auditIf)
qed

lemma disp_grows_PlanSnapshot: "disp_grows d (fst (dispatcher_PlanSnapshot ck sn d))"
  unfolding dispatcher_PlanSnapshot_def Let_def
  by (auto simp: split_beta disp_grows_finishPlan split: option.split sum.split)

lemma disp_grows_Complete: "disp_grows d (dispatcher_Complete ck p ok d)"
  by (auto simp: dispatcher_Complete_def markCompleted_def Let_def split: if_split intro!: logs_grow_auditIf)

lemma disp_grows_Outcomes: "disp_grows d (fst (dispatcher_Outcomes now d))" "disp_grows d (fst (dispatcher_OutcomeSummary now d))"
  by (simp_all add: dispatcher_Outcomes_def dispatcher_OutcomeSummary_def Let_def split_beta)

lemma evolves_with_replication:
  assumes "\<And>d. disp_grows d (fst (f d))"
  shows "evolves s (fst (with_replication f s))"
proof -
  let ?d = "(sv_replication s)\<lparr>di_registry := sv_destinations s, di_journal := Some (sv_journal s), di_audit := Some (sv_audit s)\<rparr>"
  have "logs_grow (Some (sv_journal s)) (Some (sv_audit s)) (di_journal (fst (f ?d))) (di_audit (fst (f ?d)))"
    using assms [of ?d] by simp
  then show ?thesis
    by (auto simp: with_replication_def evolves_def Let_def split_beta logs_grow_def option_rel_Some1)
qed

lemma ctrl_grows_Execute:
  "logs_grow (co_journal c) (co_audit c) (co_journal (fst (controller_Execute tz ck limit p sn c)))
     (co_audit (fst (controller_Execute tz ck limit p sn c)))"
proof -
  have j: "journal_Append e l = (l', r) \<Longrightarrow> journal_grows l l'" for e l l' r by (rule journal_grows_Append)
  show ?thesis
    unfolding controller_Execute_def Let_def logs_grow_def
    by (cases "co_journal c"; cases "co_audit c")
      (auto simp: execute_deferred_def Let_def split: prod.split sum.split if_split dest: j)
qed

lemma evolves_with_orchestration:
  assumes "\<And>c. logs_grow (co_journal c) (co_audit c) (co_journal (fst (f c))) (co_audit (fst (f c)))"
  shows "evolves s (fst (with_orchestration f s))"
proof -
  let ?c = "(sv_orchestration s)\<lparr>co_journal := Some (sv_journal s), co_audit := Some (sv_audit s)\<rparr>"
  have "logs_grow (Some (sv_journal s)) (Some (sv_audit s)) (co_journal (fst (f ?c))) (co_audit (fst (f ?c)))"
    using assms [of ?c] by simp
  then show ?thesis
    by (auto simp: with_orchestration_def evolves_def Let_def split_beta logs_grow_def option_rel_Some1)
qed

lemma evolves_PlanReplication: "evolves s (fst (Service_PlanReplication ck i s))"
  by (auto simp: Service_PlanReplication_def split: option.split
      intro!: evolves_with_replication disp_grows_PlanSnapshot)

lemma evolves_CompleteReplication: "evolves s (Service_CompleteReplication ck p ok s)"
  unfolding Service_CompleteReplication_def by (rule evolves_with_replication) (simp add: disp_grows_Complete)

lemma evolves_ReplicationOutcomes:
  "evolves s (fst (Service_ReplicationOutcomes now s))" "evolves s (fst (Service_ReplicationOutcomeSummary now s))"
  unfolding Service_ReplicationOutcomes_def Service_ReplicationOutcomeSummary_def
  by (rule evolves_with_replication, rule disp_grows_Outcomes)+

lemma evolves_RunScheduledJob: "evolves s (fst (Service_RunScheduledJob tz ck p i s))"
  by (auto simp: Service_RunScheduledJob_def split: option.split
      intro!: evolves_with_orchestration ctrl_grows_Execute)

lemma evolves_OrchestrationOutcomes:
  "evolves s (fst (Service_OrchestrationOutcomes now s))" "evolves s (fst (Service_OrchestrationFailureRate now s))"
  unfolding Service_OrchestrationOutcomes_def Service_OrchestrationFailureRate_def
  by (rule evolves_with_orchestration, simp add: controller_Outcomes_def controller_FailureRate_def Let_def split_beta)+

section \<open>Runs\<close>

inductive service_run :: "Service \<Rightarrow> Service \<Rightarrow> bool" where
  start: "service_run s s"
| begin_capture: "service_run s t \<Longrightarrow> service_run s (fst (Service_BeginCapture ctxErr ck i ow ttl t))"
| stage: "service_run s t \<Longrightarrow> service_run s (fst (Service_StageChunk ck h ix d t))"
| commit: "service_run s t \<Longrightarrow> service_run s (fst (Service_CommitCapture diff host ck h b full md t))"
| abort: "service_run s t \<Longrightarrow> service_run s (fst (Service_AbortCapture h t))"
| verify: "service_run s t \<Longrightarrow> service_run s (fst (Service_VerifySnapshot ck i t))"
| begin_restore: "service_run s t \<Longrightarrow> service_run s (fst (Service_BeginRestore ck i ow ttl t))"
| advance_restore: "service_run s t \<Longrightarrow> service_run s (fst (Service_AdvanceRestore plan received t))"
| finish_restore: "service_run s t \<Longrightarrow> service_run s (fst (Service_FinishRestore ck plan ow t))"
| rollback: "service_run s t \<Longrightarrow> service_run s (fst (Service_Rollback it ck i t))"
| replay: "service_run s t \<Longrightarrow> service_run s (fst (Service_Replay es t))"
| schedule: "service_run s t \<Longrightarrow> service_run s (fst (Service_ScheduleRetry i g due t))"
| cancel: "service_run s t \<Longrightarrow> service_run s (Service_CancelRetries i g t)"
| materialize: "service_run s t \<Longrightarrow> service_run s (fst (Service_MaterializeManifest marshal ck i t))"
| verify_manifest: "service_run s t \<Longrightarrow> service_run s (fst (Service_VerifyMaterializedManifest ck i t))"
| destination: "service_run s t \<Longrightarrow> service_run s (fst (Service_RegisterReplicationDestination host dst t))"
| plan: "service_run s t \<Longrightarrow> service_run s (fst (Service_PlanReplication ck i t))"
| complete: "service_run s t \<Longrightarrow> service_run s (Service_CompleteReplication ck pl ok t)"
| outcomes: "service_run s t \<Longrightarrow> service_run s (fst (Service_ReplicationOutcomes now t))"
| summary: "service_run s t \<Longrightarrow> service_run s (fst (Service_ReplicationOutcomeSummary now t))"
| orch_policy: "service_run s t \<Longrightarrow> service_run s (fst (Service_RegisterOrchestrationPolicy pol t))"
| job: "service_run s t \<Longrightarrow> service_run s (fst (Service_RunScheduledJob tz ck pid i t))"
| orch_outcomes: "service_run s t \<Longrightarrow> service_run s (fst (Service_OrchestrationOutcomes now t))"
| orch_rate: "service_run s t \<Longrightarrow> service_run s (fst (Service_OrchestrationFailureRate now t))"
| watermark: "service_run s t \<Longrightarrow> service_run s (fst (Service_AdvanceWatermark sub off g t))"
| site: "service_run s t \<Longrightarrow> service_run s (fst (Service_RegisterMirrorSite st t))"
| mirror: "service_run s t \<Longrightarrow> service_run s (fst (Service_ApplyMirrorUpdate ck st sn t))"
| gc_pin: "service_run s t \<Longrightarrow> service_run s (Service_GcPin i t)"
| gc_unpin: "service_run s t \<Longrightarrow> service_run s (Service_GcUnpin i t)"
| gc_add: "service_run s t \<Longrightarrow> service_run s (Service_GcAddRef dg k t)"
| gc_release: "service_run s t \<Longrightarrow> service_run s (Service_GcReleaseRef dg k t)"
| collect: "service_run s t \<Longrightarrow> service_run s (fst (Service_GcCollect ids now keepW t))"
| migrate: "service_run s t \<Longrightarrow> service_run s (fst (Service_MigrateManifest ctxErr ck i vfrom vto t))"
| quarantine: "service_run s t \<Longrightarrow> service_run s (fst (Service_QuarantineChunk ck dg reason t))"
| reverify: "service_run s t \<Longrightarrow> service_run s (fst (Service_ReverifyChunk ck dg matches verr t))"
| clear: "service_run s t \<Longrightarrow> service_run s (fst (Service_QuarantineClear dg t))"
| close: "service_run s t \<Longrightarrow> service_run s (Service_CloseJournal t)"
| reopen: "service_run s t \<Longrightarrow> service_run s (Service_OpenJournal t)"
| retention: "\<lbrakk> service_run s t; expire_order (sv_catalog t) all \<rbrakk> \<Longrightarrow> service_run s (fst (Service_ApplyRetention all keep t))"
| retry_none: "\<lbrakk> service_run s t; retry_Due (ck 0) (sv_retries t) = [] \<rbrakk> \<Longrightarrow>
    service_run s (fst (Service_RunRetry ck sender delay t))"
| retry: "\<lbrakk> service_run s t; retry_Due (ck 0) (sv_retries t) = task # rest; sender task t = (u, res); service_run t u \<rbrakk> \<Longrightarrow>
    service_run s (fst (Service_RunRetry ck sender delay t))"

lemma evolves_small:
  "evolves s (Service_CloseJournal s)" "evolves s (Service_OpenJournal s)"
  "evolves s (fst (Service_RegisterReplicationDestination host dst s))"
  "evolves s (fst (Service_RegisterOrchestrationPolicy pol s))"
  "evolves s (Service_GcPin i s)" "evolves s (Service_GcUnpin i s)" "evolves s (Service_GcAddRef dg k s)"
  "evolves s (Service_GcReleaseRef dg k s)"
  by (auto simp: Service_CloseJournal_def Service_OpenJournal_def Service_RegisterReplicationDestination_def
      Service_RegisterOrchestrationPolicy_def Service_GcPin_def Service_GcUnpin_def Service_GcAddRef_def
      Service_GcReleaseRef_def Let_def split_beta journal_grows_closed intro!: evolves_journal split: option.split)

lemmas evolves_ops = evolves_small evolves_BeginCapture evolves_StageChunk evolves_CommitCapture evolves_AbortCapture
  evolves_VerifySnapshot evolves_BeginRestore evolves_AdvanceRestore evolves_FinishRestore evolves_ApplyRetention
  evolves_Rollback evolves_Replay evolves_ScheduleRetry evolves_CancelRetries evolves_MaterializeManifest
  evolves_VerifyMaterializedManifest evolves_PlanReplication evolves_CompleteReplication evolves_ReplicationOutcomes
  evolves_RunScheduledJob evolves_OrchestrationOutcomes evolves_AdvanceWatermark evolves_RegisterMirrorSite
  evolves_ApplyMirrorUpdate evolves_GcCollect evolves_MigrateManifest evolves_QuarantineChunk evolves_ReverifyChunk
  evolves_QuarantineClear

lemma service_run_evolves: "service_run s t \<Longrightarrow> evolves s t"
proof (induction rule: service_run.induct)
  case (retry s t ck task rest sender u res delay)
  have "evolves t (fst (Service_RunRetry ck sender delay t))"
    by (rule evolves_RunRetry) (use retry in auto)
  with retry.IH(1) show ?case by (rule evolves_trans)
next
  case (retry_none s t ck sender delay)
  then show ?case by (simp add: Service_RunRetry_def)
qed (simp, (erule evolves_trans, rule evolves_ops, (assumption)?)+)

lemma service_run_trans:
  assumes "service_run s t" and "service_run t u"
  shows "service_run s u"
  using assms(2,1) by (induction rule: service_run.induct) (auto intro: service_run.intros)

end
