(* ===== verification/SnapManifest.thy ===== *)
theory SnapManifest
  imports Model Sha256
begin

text \<open>
  Package \<open>replsnap\<close>, the content of a replica snapshot: its data (\<open>model.go\<close>), reading a
  stream into frames (\<open>stream.go\<close>), the Merkle root (\<open>merkle.go\<close>), building the manifest
  (\<open>manifest.go\<close>) and verifying chunks against it (\<open>verifier.go\<close>).

  A reader is any function that takes its state and the length of the buffer and returns its new
  state, the bytes it read and its error; nothing else is assumed of it, so the loop of
  \<open>ReadFrames\<close> may not end: its value is then \<open>None\<close>.
\<close>

section \<open>Data\<close>

record ChunkMeta =
  cm_Index :: int
  cm_Size :: int
  cm_Digest :: string
  cm_Final :: bool

record rsManifest =
  mf_SnapshotID :: string
  mf_Chunks :: "ChunkMeta list"
  mf_MerkleRoot :: string

record SnapshotMeta =
  sm_ID :: string
  sm_BaseID :: string
  sm_CreatedAt :: time

definition meta_Dependencies :: "SnapshotMeta \<Rightarrow> string list" where
  "meta_Dependencies meta = (if sm_BaseID meta = [] then [] else [sm_BaseID meta])"

record rsSnapshot =
  rs_Meta :: SnapshotMeta
  rs_Manifest :: rsManifest
  rs_Chunks :: "bytes list"

record Frame =
  fr_Data :: bytes
  fr_Final :: bool

section \<open>Reading a stream\<close>

datatype readError = EOF | ReadFailed error

type_synonym 'r reader = "'r \<Rightarrow> int \<Rightarrow> 'r \<times> bytes \<times> readError option"

definition addFrame :: "bytes \<Rightarrow> readError option \<Rightarrow> Frame list \<Rightarrow> Frame list" where
  "addFrame buffer readErr frames =
     (if 0 < length buffer then frames @ [\<lparr>fr_Data = buffer, fr_Final = (readErr = Some EOF)\<rparr>] else frames)"

partial_function (option) read_loop ::
  "'r reader \<Rightarrow> int \<Rightarrow> 'r \<Rightarrow> Frame list \<Rightarrow> Frame list result option" where
  "read_loop read blockSize r frames =
     (case read r blockSize of (r', buffer, readErr) \<Rightarrow>
       (case readErr of
          Some EOF \<Rightarrow> Some (Inr (addFrame buffer readErr frames))
        | Some (ReadFailed e) \<Rightarrow> Some (Inl e)
        | None \<Rightarrow>
            if length buffer = 0 then Some (Inl ErrNoProgress)
            else read_loop read blockSize r' (addFrame buffer readErr frames)))"

definition ReadFrames :: "'r reader \<Rightarrow> 'r \<Rightarrow> int \<Rightarrow> Frame list result option" where
  "ReadFrames read r blockSize =
     (if blockSize < 1 then Some (Inl (Errorf ''block size must be positive''))
      else read_loop read blockSize r [])"

text \<open>
  \<open>bytes.Reader\<close> of the standard library: a read copies what fits, and only a read with nothing
  left reports the end of the stream.
\<close>

definition bytesReader :: "bytes reader" where
  "bytesReader rest n =
     (if rest = [] then ([], [], Some EOF) else (drop (nat n) rest, take (nat n) rest, None))"

section \<open>Merkle root\<close>

definition rsDigest :: "bytes \<Rightarrow> string" where
  "rsDigest data = hexEncode (sha256 data)"

definition padLevel :: "bytes list \<Rightarrow> bytes list" where
  "padLevel level = (if length level mod 2 = 1 then level @ [last level] else level)"

fun pairLevel :: "bytes list \<Rightarrow> bytes list" where
  "pairLevel (left # right # rest) = sha256 (left @ right) # pairLevel rest"
| "pairLevel level = []"

lemma length_pairLevel [simp]: "length (pairLevel level) = length level div 2"
  by (induction level rule: pairLevel.induct) simp_all

lemma length_padLevel: "length (padLevel level) = 2 * ((length level + 1) div 2)"
  unfolding padLevel_def by simp presburger

lemma length_pair_pad [simp]: "length (pairLevel (padLevel level)) = (length level + 1) div 2"
  by (simp add: length_padLevel)

function merkle_loop :: "bytes list \<Rightarrow> bytes list" where
  "merkle_loop level = (if 1 < length level then merkle_loop (pairLevel (padLevel level)) else level)"
  by pat_completeness auto
termination by (relation "measure length") (auto simp: length_padLevel)

declare merkle_loop.simps [simp del]

definition MerkleRoot :: "bytes list \<Rightarrow> string" where
  "MerkleRoot chunks =
     (if length chunks = 0 then rsDigest [] else hexEncode (hd (merkle_loop (map sha256 chunks))))"

section \<open>Manifests\<close>

fun manifest_loop ::
  "int \<Rightarrow> Frame list \<Rightarrow> bytes list \<Rightarrow> ChunkMeta list \<Rightarrow> (bytes list \<times> ChunkMeta list) result" where
  "manifest_loop index [] chunks metadata = Inr (chunks, metadata)"
| "manifest_loop index (frame # frames) chunks metadata =
     (if length (fr_Data frame) = 0 then Inl (Wrapf ErrInvalidManifest (''empty chunk '' @ showInt index))
      else let chunk = fr_Data frame
           in manifest_loop (index + 1) frames (chunks @ [chunk])
                (metadata @ [\<lparr>cm_Index = index, cm_Size = int (length chunk), cm_Digest = rsDigest chunk,
                   cm_Final = fr_Final frame\<rparr>]))"

definition BuildManifest :: "string \<Rightarrow> Frame list \<Rightarrow> (rsManifest \<times> bytes list) result" where
  "BuildManifest snapshotID frames =
     (if snapshotID = [] \<or> length frames = 0 then Inl (Wrapf ErrInvalidManifest ''empty snapshot'')
      else (case manifest_loop 0 frames [] [] of
          Inl e \<Rightarrow> Inl e
        | Inr (chunks, metadata) \<Rightarrow>
            Inr (\<lparr>mf_SnapshotID = snapshotID, mf_Chunks = metadata, mf_MerkleRoot = MerkleRoot chunks\<rparr>, chunks)))"

text \<open>The loop over the chunks; the manifest has as many entries, as was checked before it.\<close>

fun manifestVerify_loop :: "int \<Rightarrow> ChunkMeta list \<Rightarrow> bytes list \<Rightarrow> error option" where
  "manifestVerify_loop index (meta # metas) (chunk # chunks) =
     (if cm_Index meta \<noteq> index \<or> cm_Size meta \<noteq> int (length chunk) \<or> cm_Digest meta \<noteq> rsDigest chunk
      then Some (Wrapf ErrInvalidManifest (''chunk '' @ showInt index))
      else manifestVerify_loop (index + 1) metas chunks)"
| "manifestVerify_loop index metas chunks = None"

definition VerifyManifest :: "rsManifest \<Rightarrow> bytes list \<Rightarrow> error option" where
  "VerifyManifest manifest chunks =
     (if mf_SnapshotID manifest = [] \<or> length (mf_Chunks manifest) \<noteq> length chunks \<or> length chunks = 0
      then Some (Wrapf ErrInvalidManifest ''chunk count'')
      else (case manifestVerify_loop 0 (mf_Chunks manifest) chunks of
          Some e \<Rightarrow> Some e
        | None \<Rightarrow>
            if mf_MerkleRoot manifest \<noteq> MerkleRoot chunks then Some (Wrapf ErrInvalidManifest ''merkle root'')
            else None))"

definition RestoreBytes :: "rsSnapshot list \<Rightarrow> bytes" where
  "RestoreBytes chain = fold (\<lambda>snapshot result. fold (\<lambda>chunk result. result @ chunk) (rs_Chunks snapshot) result) chain []"

section \<open>What reading yields\<close>

text \<open>
  A stream: the pieces a reader delivers, from a state to the end it reports, the last piece with
  or without the end.
\<close>

inductive delivers :: "'r reader \<Rightarrow> int \<Rightarrow> 'r \<Rightarrow> bytes list \<Rightarrow> bool" for read n where
  eof: "read r n = (r', [], Some EOF) \<Longrightarrow> delivers read n r []"
| last_piece: "\<lbrakk> read r n = (r', b, Some EOF); b \<noteq> [] \<rbrakk> \<Longrightarrow> delivers read n r [b]"
| piece: "\<lbrakk> read r n = (r', b, None); b \<noteq> []; delivers read n r' bs \<rbrakk> \<Longrightarrow> delivers read n r (b # bs)"

lemma read_loop_delivers:
  assumes "delivers read n r bs"
  shows "\<exists>fs. read_loop read n r frames = Some (Inr (frames @ fs)) \<and> map fr_Data fs = bs"
  using assms
proof (induction arbitrary: frames rule: delivers.induct)
  case (piece r r' b bs)
  obtain fs where "read_loop read n r' (frames @ [\<lparr>fr_Data = b, fr_Final = False\<rparr>]) =
      Some (Inr ((frames @ [\<lparr>fr_Data = b, fr_Final = False\<rparr>]) @ fs))" "map fr_Data fs = bs"
    using piece.IH by blast
  with piece.hyps show ?case
    by (intro exI [of _ "\<lparr>fr_Data = b, fr_Final = False\<rparr> # fs"])
      (simp add: read_loop.simps [of read n r] addFrame_def)
qed (simp_all add: read_loop.simps addFrame_def)

lemma delivers_nonempty: "delivers read n r bs \<Longrightarrow> b \<in> set bs \<Longrightarrow> b \<noteq> []"
  by (induction rule: delivers.induct) auto

text \<open>The pieces of \<open>bytes.Reader\<close>: all full but the last.\<close>

fun blocks :: "nat \<Rightarrow> bytes \<Rightarrow> bytes list" where
  "blocks n xs = (if xs = [] \<or> n = 0 then [] else take n xs # blocks n (drop n xs))"

declare blocks.simps [simp del]

lemma concat_blocks: "0 < n \<Longrightarrow> concat (blocks n xs) = xs"
  by (induction n xs rule: blocks.induct) (subst blocks.simps, simp)

lemma delivers_bytesReader: "1 \<le> n \<Longrightarrow> delivers bytesReader n xs (blocks (nat n) xs)"
proof (induction "nat n" xs rule: blocks.induct)
  case (1 xs)
  show ?case
  proof (cases "xs = []")
    case True
    then show ?thesis by (subst blocks.simps) (auto intro!: delivers.eof simp: bytesReader_def)
  next
    case False
    with 1 have "delivers bytesReader n (drop (nat n) xs) (blocks (nat n) (drop (nat n) xs))" by simp
    with 1 False show ?thesis
      by (subst blocks.simps) (auto intro!: delivers.piece simp: bytesReader_def)
  qed
qed

lemma read_loop_bytesReader:
  "1 \<le> n \<Longrightarrow> read_loop bytesReader n xs frames =
     Some (Inr (frames @ map (\<lambda>b. \<lparr>fr_Data = b, fr_Final = False\<rparr>) (blocks (nat n) xs)))"
proof (induction "nat n" xs arbitrary: frames rule: blocks.induct)
  case (1 xs)
  show ?case
  proof (cases "xs = []")
    case True
    then show ?thesis by (subst read_loop.simps) (simp add: bytesReader_def addFrame_def blocks.simps)
  next
    case False
    then have "0 < length (take (nat n) xs)" using 1(2) by simp
    with 1 False show ?thesis
      by (subst read_loop.simps) (simp add: bytesReader_def addFrame_def blocks.simps [of _ xs])
  qed
qed

text \<open>
  A frame is final only if its bytes arrive together with the end of the stream. \<open>bytes.Reader\<close> never
  does this: none of its frames is final, also not the last one.
\<close>

theorem snap_bytes_reader_never_final:
  assumes "1 \<le> n"
  shows "ReadFrames bytesReader xs n = Some (Inr (map (\<lambda>b. \<lparr>fr_Data = b, fr_Final = False\<rparr>) (blocks (nat n) xs)))
    \<and> concat (blocks (nat n) xs) = xs"
  using assms by (simp add: ReadFrames_def read_loop_bytesReader concat_blocks)

section \<open>What the Merkle root binds\<close>

text \<open>The strings that are hashed on the way up: the pairs of each level.\<close>

fun pairInputs :: "bytes list \<Rightarrow> bytes list" where
  "pairInputs (left # right # rest) = (left @ right) # pairInputs rest"
| "pairInputs level = []"

lemma pairLevel_inputs: "pairLevel level = map sha256 (pairInputs level)"
  by (induction level rule: pairInputs.induct) simp_all

function merkle_hashed :: "bytes list \<Rightarrow> bytes set" where
  "merkle_hashed level =
     (if 1 < length level then set (pairInputs (padLevel level)) \<union> merkle_hashed (pairLevel (padLevel level)) else {})"
  by pat_completeness auto
termination by (relation "measure length") (auto simp: length_padLevel)

declare merkle_hashed.simps [simp del]

definition root_inputs :: "bytes list \<Rightarrow> bytes set" where
  "root_inputs chunks = set chunks \<union> merkle_hashed (map sha256 chunks)"

definition collision :: "bytes set \<Rightarrow> bytes set \<Rightarrow> bool" where
  "collision A B \<longleftrightarrow> (\<exists>a \<in> A. \<exists>b \<in> B. a \<noteq> b \<and> sha256 a = sha256 b)"

lemma collision_mono: "\<lbrakk> collision A B; A \<subseteq> A'; B \<subseteq> B' \<rbrakk> \<Longrightarrow> collision A' B'"
  unfolding collision_def by blast

lemma map_sha_eq:
  assumes "map sha256 xs = map sha256 ys" and "xs \<noteq> ys"
  shows "collision (set xs) (set ys)"
proof -
  have len: "length xs = length ys" using assms(1) by (rule map_eq_imp_length_eq)
  then obtain i where i: "i < length xs" "xs ! i \<noteq> ys ! i" using assms(2) by (metis nth_equalityI)
  then have "sha256 (xs ! i) = sha256 (ys ! i)" using assms(1) len by (metis nth_map)
  with i len show ?thesis unfolding collision_def by (metis nth_mem)
qed

abbreviation hashes :: "bytes list \<Rightarrow> bool" where
  "hashes level \<equiv> \<forall>h \<in> set level. length h = 32"

lemma pairInputs_inject:
  "\<lbrakk> hashes xs; hashes ys; length xs = length ys; even (length xs); pairInputs xs = pairInputs ys \<rbrakk> \<Longrightarrow> xs = ys"
proof (induction xs arbitrary: ys rule: pairInputs.induct)
  case (1 l r rest)
  obtain l' r' rest' where ys: "ys = l' # r' # rest'"
    using 1(4) by (cases ys rule: pairInputs.cases) simp_all
  have "rest = rest'" by (rule 1(1)) (use 1(2-6) ys in auto)
  moreover have "l = l' \<and> r = r'" using 1(2,3,6) ys by (simp add: append_eq_append_conv)
  ultimately show ?case using ys by simp
qed (simp, metis One_nat_def length_Cons list.size(3) odd_one)

lemma hashes_padLevel: "\<lbrakk> hashes level; level \<noteq> [] \<rbrakk> \<Longrightarrow> hashes (padLevel level)"
  by (auto simp: padLevel_def)

lemma hashes_pairLevel: "hashes (pairLevel level)"
  by (auto simp: pairLevel_inputs)

lemma padLevel_inject: "\<lbrakk> padLevel xs = padLevel ys; length xs = length ys \<rbrakk> \<Longrightarrow> xs = ys"
  by (auto simp: padLevel_def split: if_splits)

lemma length_merkle_loop: "level \<noteq> [] \<Longrightarrow> length (merkle_loop level) = 1"
proof (induction level rule: merkle_loop.induct)
  case (1 level)
  show ?case
  proof (cases "1 < length level")
    case True
    then have "0 < length (pairLevel (padLevel level))" unfolding length_pair_pad by simp
    then have "pairLevel (padLevel level) \<noteq> []" by blast
    with 1 True show ?thesis by (subst merkle_loop.simps) simp
  next
    case False
    with 1 show ?thesis by (subst merkle_loop.simps) (cases level; simp)
  qed
qed

lemma merkle_loop_binds:
  "\<lbrakk> hashes xs; hashes ys; length xs = length ys; merkle_loop xs = merkle_loop ys; xs \<noteq> ys \<rbrakk>
    \<Longrightarrow> collision (merkle_hashed xs) (merkle_hashed ys)"
proof (induction xs arbitrary: ys rule: merkle_loop.induct)
  case (1 xs)
  show ?case
  proof (cases "1 < length xs")
    case False
    with 1 show ?thesis by (simp add: merkle_loop.simps)
  next
    case True
    let ?xp = "padLevel xs" and ?yp = "padLevel ys"
    have ne: "xs \<noteq> []" "ys \<noteq> []" using True 1(4) by auto
    have hp: "hashes ?xp" "hashes ?yp" using 1(2,3) ne hashes_padLevel by auto
    have lp: "length ?xp = length ?yp" "even (length ?xp)" using 1(4) by (simp_all add: length_padLevel)
    have eq: "merkle_loop (pairLevel ?xp) = merkle_loop (pairLevel ?yp)"
      using 1(4,5) True by (simp add: merkle_loop.simps [of xs] merkle_loop.simps [of ys])
    have sub: "merkle_hashed xs = set (pairInputs ?xp) \<union> merkle_hashed (pairLevel ?xp)"
      "merkle_hashed ys = set (pairInputs ?yp) \<union> merkle_hashed (pairLevel ?yp)"
      using True 1(4) by (simp_all add: merkle_hashed.simps [of xs] merkle_hashed.simps [of ys])
    have "?xp \<noteq> ?yp" using padLevel_inject 1(4,6) by blast
    then have diff: "pairInputs ?xp \<noteq> pairInputs ?yp" using pairInputs_inject hp lp by blast
    show ?thesis
    proof (cases "pairLevel ?xp = pairLevel ?yp")
      case True
      then have "collision (set (pairInputs ?xp)) (set (pairInputs ?yp))"
        using map_sha_eq diff by (simp add: pairLevel_inputs)
      then show ?thesis by (rule collision_mono) (auto simp: sub)
    next
      case False
      have "collision (merkle_hashed (pairLevel ?xp)) (merkle_hashed (pairLevel ?yp))"
        by (rule 1(1) [OF True hashes_pairLevel hashes_pairLevel _ eq False]) (simp add: lp)
      then show ?thesis by (rule collision_mono) (auto simp: sub)
    qed
  qed
qed

text \<open>
  The Merkle root binds the chunks up to their number. Two lists of equally many chunks with
  the same root are equal, or the strings that were hashed for them contain a collision of SHA-256:
  two chunks, or two pairs of hashes of the same level.
\<close>

theorem snap_merkle_binds:
  assumes "length xs = length ys" and "MerkleRoot xs = MerkleRoot ys"
  shows "xs = ys \<or> collision (root_inputs xs) (root_inputs ys)"
proof (cases "xs = ys")
  case neq: False
  then have ne: "xs \<noteq> []" "ys \<noteq> []" using assms by auto
  let ?x = "map sha256 xs" and ?y = "map sha256 ys"
  have "length (merkle_loop ?x) = 1" "length (merkle_loop ?y) = 1" using ne by (simp_all add: length_merkle_loop)
  moreover have "hd (merkle_loop ?x) = hd (merkle_loop ?y)" using assms(2) ne by (simp add: MerkleRoot_def)
  ultimately have eq: "merkle_loop ?x = merkle_loop ?y"
    by (cases "merkle_loop ?x"; cases "merkle_loop ?y") simp_all
  have "collision (root_inputs xs) (root_inputs ys)"
  proof (cases "?x = ?y")
    case True
    then show ?thesis
      using collision_mono [OF map_sha_eq [OF True neq]] by (simp add: root_inputs_def)
  next
    case False
    have "collision (merkle_hashed ?x) (merkle_hashed ?y)"
      by (rule merkle_loop_binds) (use assms(1) eq False in auto)
    then show ?thesis by (rule collision_mono) (auto simp: root_inputs_def)
  qed
  then show ?thesis by simp
qed simp

lemma snap_merkle_binds_witness: "MerkleRoot [[1], [2]] = MerkleRoot [[1], [2]] \<and>
    ([[1], [2]] = [[1], [2 :: byte]] \<or> collision (root_inputs [[1], [2]]) (root_inputs [[1], [2]]))"
  using snap_merkle_binds [of "[[1], [2]]" "[[1], [2]]"] by blast

text \<open>
  The Merkle root alone does not tell how many chunks there are: repeating the last chunk of an
  odd number of at least three gives the same root, because an odd level is filled with a copy of
  its last hash. \<open>VerifyManifest\<close> is not deceived, since it compares the number of chunks.
\<close>

theorem snap_merkle_odd_level:
  assumes "odd (length xs)" and "3 \<le> length xs"
  shows "MerkleRoot (xs @ [last xs]) = MerkleRoot xs"
proof -
  have "xs \<noteq> []" "1 < length xs" using assms by auto
  then have "padLevel (map sha256 xs) = map sha256 (xs @ [last xs])"
    "padLevel (map sha256 (xs @ [last xs])) = map sha256 (xs @ [last xs])"
    using assms(1) by (simp_all add: padLevel_def odd_iff_mod_2_eq_one last_map)
  with \<open>1 < length xs\<close> \<open>xs \<noteq> []\<close> have "merkle_loop (map sha256 (xs @ [last xs])) = merkle_loop (map sha256 xs)"
    using merkle_loop.simps [of "map sha256 xs"] merkle_loop.simps [of "map sha256 (xs @ [last xs])"]
    by (simp del: map_append)
  then show ?thesis using \<open>xs \<noteq> []\<close> by (simp add: MerkleRoot_def)
qed

lemma snap_merkle_odd_level_witness:
  "MerkleRoot [[1], [2], [3], [3]] = MerkleRoot [[1], [2], [3]]"
  using snap_merkle_odd_level [of "[[1], [2], [3]]"] by simp

section \<open>What a manifest accepts\<close>

fun metasOf :: "int \<Rightarrow> Frame list \<Rightarrow> ChunkMeta list" where
  "metasOf i [] = []"
| "metasOf i (f # fs) =
     \<lparr>cm_Index = i, cm_Size = int (length (fr_Data f)), cm_Digest = rsDigest (fr_Data f), cm_Final = fr_Final f\<rparr>
       # metasOf (i + 1) fs"

lemma length_metasOf [simp]: "length (metasOf i fs) = length fs"
  by (induction fs arbitrary: i) simp_all

lemma manifest_loop_spec:
  "case manifest_loop i fs cs ms of
     Inr r \<Rightarrow> r = (cs @ map fr_Data fs, ms @ metasOf i fs) \<and> (\<forall>f \<in> set fs. fr_Data f \<noteq> [])
   | Inl e \<Rightarrow> \<exists>n. e = Wrapf ErrInvalidManifest (''empty chunk '' @ showInt (i + int n)) \<and> n < length fs
       \<and> fr_Data (fs ! n) = [] \<and> (\<forall>j < n. fr_Data (fs ! j) \<noteq> [])"
proof (induction fs arbitrary: i cs ms)
  case (Cons f fs)
  show ?case
  proof (cases "fr_Data f = []")
    case True
    then show ?thesis by (auto intro!: exI [of _ 0])
  next
    case False
    let ?m = "\<lparr>cm_Index = i, cm_Size = int (length (fr_Data f)), cm_Digest = rsDigest (fr_Data f), cm_Final = fr_Final f\<rparr>"
    have eq: "manifest_loop i (f # fs) cs ms = manifest_loop (i + 1) fs (cs @ [fr_Data f]) (ms @ [?m])"
      using False by (simp add: Let_def)
    show ?thesis
    proof (cases "manifest_loop (i + 1) fs (cs @ [fr_Data f]) (ms @ [?m])")
      case (Inl e)
      with Cons [of "i + 1" "cs @ [fr_Data f]" "ms @ [?m]"] obtain n where n:
        "e = Wrapf ErrInvalidManifest (''empty chunk '' @ showInt (i + 1 + int n))" "n < length fs"
        "fr_Data (fs ! n) = []" "\<forall>j < n. fr_Data (fs ! j) \<noteq> []" by auto
      have "fr_Data ((f # fs) ! j) \<noteq> []" if "j < Suc n" for j
        using that False n(4) by (cases j) simp_all
      then show ?thesis using n Inl unfolding eq by (auto intro!: exI [of _ "Suc n"] simp: ac_simps)
    next
      case (Inr r)
      with Cons [of "i + 1" "cs @ [fr_Data f]" "ms @ [?m]"] False show ?thesis unfolding eq by simp
    qed
  qed
qed simp

lemma BuildManifest_Inr:
  "BuildManifest sid fs = Inr (m, cs) \<longleftrightarrow>
     sid \<noteq> [] \<and> fs \<noteq> [] \<and> (\<forall>f \<in> set fs. fr_Data f \<noteq> []) \<and> cs = map fr_Data fs
     \<and> m = \<lparr>mf_SnapshotID = sid, mf_Chunks = metasOf 0 fs, mf_MerkleRoot = MerkleRoot cs\<rparr>"
  using manifest_loop_spec [of 0 fs "[]" "[]"]
  by (auto simp: BuildManifest_def split: sum.splits)

lemma manifestVerify_metasOf:
  "length cs = length fs \<Longrightarrow> manifestVerify_loop i (metasOf i fs) cs = None \<longleftrightarrow>
     map sha256 cs = map sha256 (map fr_Data fs) \<and> map length cs = map length (map fr_Data fs)"
proof (induction fs arbitrary: i cs)
  case (Cons f fs)
  then obtain c cs' where "cs = c # cs'" by (cases cs) simp_all
  with Cons show ?case by (auto simp: rsDigest_def)
qed simp

lemma MerkleRoot_cong: "map sha256 xs = map sha256 ys \<Longrightarrow> MerkleRoot xs = MerkleRoot ys"
  by (metis MerkleRoot_def length_map)

lemma VerifyManifest_built:
  assumes "BuildManifest sid frames = Inr (m, chunks)"
  shows "VerifyManifest m ds = None \<longleftrightarrow> map sha256 ds = map sha256 chunks \<and> map length ds = map length chunks"
proof -
  have b: "sid \<noteq> []" "frames \<noteq> []" "chunks = map fr_Data frames"
    "m = \<lparr>mf_SnapshotID = sid, mf_Chunks = metasOf 0 frames, mf_MerkleRoot = MerkleRoot chunks\<rparr>"
    using assms by (simp_all add: BuildManifest_Inr)
  show ?thesis
  proof (cases "length ds = length frames")
    case True
    have "VerifyManifest m ds = None \<longleftrightarrow> manifestVerify_loop 0 (metasOf 0 frames) ds = None \<and> MerkleRoot chunks = MerkleRoot ds"
      using b(1,2) True by (simp add: VerifyManifest_def b(4) split: option.split)
    also have "\<dots> \<longleftrightarrow> (map sha256 ds = map sha256 chunks \<and> map length ds = map length chunks)
        \<and> MerkleRoot chunks = MerkleRoot ds"
      unfolding manifestVerify_metasOf [OF True] b(3) by (rule refl)
    also have "\<dots> \<longleftrightarrow> map sha256 ds = map sha256 chunks \<and> map length ds = map length chunks"
      using MerkleRoot_cong [of chunks ds] by metis
    finally show ?thesis .
  next
    case False
    then have "map sha256 ds \<noteq> map sha256 chunks" using b(3) by (metis length_map)
    with False show ?thesis by (simp add: VerifyManifest_def b(4))
  qed
qed

lemma BuildManifest_verifies: "BuildManifest sid frames = Inr (m, chunks) \<Longrightarrow> VerifyManifest m chunks = None"
  by (simp add: VerifyManifest_built)

text \<open>
  C17: a manifest accepts exactly the chunks it was built from, up to collisions of SHA-256.
  \<open>BuildManifest\<close> succeeds exactly for an id and at least one frame, none of them empty, and keeps
  the data of the frames. \<open>VerifyManifest\<close> of its manifest accepts a list of chunks exactly when
  it has the same hashes and the same sizes at each place; so what it accepts is the original, or
  shows a collision with it. Dropping, adding or exchanging chunks is refused.
\<close>

theorem snap_manifest_accepts:
  assumes "BuildManifest sid frames = Inr (m, chunks)"
  shows "sid \<noteq> [] \<and> frames \<noteq> [] \<and> chunks = map fr_Data frames \<and> [] \<notin> set chunks
    \<and> VerifyManifest m chunks = None
    \<and> (VerifyManifest m others = None \<longleftrightarrow>
         map sha256 others = map sha256 chunks \<and> map length others = map length chunks)
    \<and> (VerifyManifest m others = None \<longrightarrow> others = chunks \<or> collision (set others) (set chunks))"
proof -
  have b: "sid \<noteq> []" "frames \<noteq> []" "\<forall>f \<in> set frames. fr_Data f \<noteq> []" "chunks = map fr_Data frames"
    using assms by (simp_all add: BuildManifest_Inr)
  note iff = VerifyManifest_built [OF assms]
  have "others = chunks \<or> collision (set others) (set chunks)" if "VerifyManifest m others = None"
    using that map_sha_eq unfolding iff by blast
  then have "VerifyManifest m others = None \<longrightarrow> others = chunks \<or> collision (set others) (set chunks)" by (rule impI)
  moreover have "[] \<notin> set chunks" using b(3,4) by auto
  moreover have "VerifyManifest m chunks = None" unfolding iff by simp
  ultimately show ?thesis using b(1,2,4) iff [of others] by (intro conjI)
qed

lemma snap_manifest_accepts_witness:
  "\<exists>m. BuildManifest ''s'' [\<lparr>fr_Data = [1], fr_Final = False\<rparr>, \<lparr>fr_Data = [2, 3], fr_Final = True\<rparr>] = Inr (m, [[1], [2, 3]])
     \<and> VerifyManifest m [[1], [2, 3]] = None \<and> VerifyManifest m [[1], [2, 3], [4]] \<noteq> None"
proof -
  let ?fs = "[\<lparr>fr_Data = [1], fr_Final = False\<rparr>, \<lparr>fr_Data = [2, 3], fr_Final = True\<rparr>]"
  obtain m where m: "BuildManifest ''s'' ?fs = Inr (m, [[1], [2, 3]])" by (simp add: BuildManifest_Inr)
  with snap_manifest_accepts [OF m, of "[[1], [2, 3], [4]]"] show ?thesis by auto
qed

end
