(* ===== verification/SnapStore.thy ===== *)
theory SnapStore
  imports SnapManifest
begin

text \<open>
  Package \<open>replsnap\<close>, the store of snapshots (\<open>store.go\<close>), the chain of a snapshot and its bases
  (\<open>restore.go\<close>) and retention (\<open>retention.go\<close>).

  Snapshots are values here, so the copies that \<open>cloneSnapshot\<close> makes, against writes through a
  shared slice, are the values themselves. The map that the loop of \<open>RetainedIDs\<close> ranges over grows
  during the loop; Go leaves open in which order the keys come and which of the added ones are
  still visited. This choice is the argument \<open>visit\<close>, of which the theorems only assume that it
  visits every key that was there at the beginning.
\<close>

section \<open>The store\<close>

record MemoryStore =
  ms_snapshots :: "(string, rsSnapshot) gomap"

definition NewMemoryStore :: MemoryStore where
  "NewMemoryStore = \<lparr>ms_snapshots = mempty\<rparr>"

definition rsClone :: "rsSnapshot \<Rightarrow> rsSnapshot" where
  "rsClone snapshot =
     snapshot\<lparr>rs_Manifest := (rs_Manifest snapshot)\<lparr>mf_Chunks := [] @ mf_Chunks (rs_Manifest snapshot)\<rparr>,
              rs_Chunks := map (\<lambda>chunk. [] @ chunk) (rs_Chunks snapshot)\<rparr>"

lemma rsClone_same [simp]: "rsClone sn = sn"
  by (simp add: rsClone_def)

definition store_Save :: "rsSnapshot \<Rightarrow> MemoryStore \<Rightarrow> MemoryStore" where
  "store_Save snapshot store =
     store\<lparr>ms_snapshots := mput (ms_snapshots store) (sm_ID (rs_Meta snapshot)) (rsClone snapshot)\<rparr>"

definition store_Get :: "string \<Rightarrow> MemoryStore \<Rightarrow> rsSnapshot option" where
  "store_Get i store = map_option rsClone (mget (ms_snapshots store) i)"

definition store_Delete :: "string \<Rightarrow> MemoryStore \<Rightarrow> MemoryStore" where
  "store_Delete i store = store\<lparr>ms_snapshots := mdel (ms_snapshots store) i\<rparr>"

definition store_Dependencies :: "string \<Rightarrow> MemoryStore \<Rightarrow> string list" where
  "store_Dependencies i store =
     (case store_Get i store of None \<Rightarrow> [] | Some snapshot \<Rightarrow> meta_Dependencies (rs_Meta snapshot))"

definition olderMeta :: "SnapshotMeta \<Rightarrow> SnapshotMeta \<Rightarrow> bool" where
  "olderMeta a b \<longleftrightarrow>
     (if tEqual (sm_CreatedAt a) (sm_CreatedAt b) then sm_ID a < sm_ID b
      else sm_CreatedAt a < sm_CreatedAt b)"

text \<open>The order of the map is the argument \<open>it\<close>; ids are keys, so the sorted list is the same for all.\<close>

definition store_List :: "(string \<times> rsSnapshot) list \<Rightarrow> SnapshotMeta list" where
  "store_List it = sort_by olderMeta (map (rs_Meta \<circ> snd) it)"

section \<open>Chains\<close>

function chain_loop ::
  "MemoryStore \<Rightarrow> (string, unit) gomap \<Rightarrow> rsSnapshot list \<Rightarrow> string \<Rightarrow> rsSnapshot list result" where
  "chain_loop store visited chain current =
     (if current = [] then Inr chain
      else if mget visited current \<noteq> None then Inl (Wrapf ErrInvalidManifest ''dependency cycle'')
      else (case store_Get current store of
          None \<Rightarrow> Inl (Wrapf ErrSnapshotNotFound current)
        | Some snapshot \<Rightarrow>
            chain_loop store (mput visited current ()) (chain @ [snapshot]) (sm_BaseID (rs_Meta snapshot))))"
  by pat_completeness auto

text \<open>Every turn visits a snapshot of the store for the first time.\<close>

termination
proof (relation "measure (\<lambda>(store, visited, _, _). card (dom (mget (ms_snapshots store)) - dom (mget visited)))")
  fix store :: MemoryStore and visited :: "(string, unit) gomap" and chain current snapshot
  assume "\<not> mget visited current \<noteq> None" and "store_Get current store = Some snapshot"
  then have "current \<in> dom (mget (ms_snapshots store)) - dom (mget visited)"
    by (auto simp: store_Get_def)
  moreover have "dom (mget (mput visited current ())) = insert current (dom (mget visited))"
    by (auto simp: gomap_simps split: if_splits)
  ultimately have "dom (mget (ms_snapshots store)) - dom (mget (mput visited current ()))
      \<subset> dom (mget (ms_snapshots store)) - dom (mget visited)" by blast
  then show "((store, mput visited current (), chain @ [snapshot], sm_BaseID (rs_Meta snapshot)),
      (store, visited, chain, current)) \<in> measure (\<lambda>(store, visited, _, _). card (dom (mget (ms_snapshots store)) - dom (mget visited)))"
    by (simp add: psubset_card_mono del: fst_entries)
qed simp

declare chain_loop.simps [simp del]

text \<open>The exchange of the elements from both ends.\<close>

function reverse_loop :: "int \<Rightarrow> int \<Rightarrow> 'a list \<Rightarrow> 'a list" where
  "reverse_loop left right xs =
     (if left < right
      then reverse_loop (left + 1) (right - 1) (xs[nat left := xs ! nat right, nat right := xs ! nat left])
      else xs)"
  by pat_completeness auto
termination by (relation "measure (\<lambda>(left, right, _). nat (right - left))") auto

declare reverse_loop.simps [simp del]

definition ResolveChain :: "MemoryStore \<Rightarrow> string \<Rightarrow> rsSnapshot list result" where
  "ResolveChain store snapshotID =
     (case chain_loop store mempty [] snapshotID of
        Inl e \<Rightarrow> Inl e
      | Inr chain \<Rightarrow> Inr (reverse_loop 0 (int (length chain) - 1) chain))"

section \<open>Retention\<close>

definition newerMeta :: "SnapshotMeta \<Rightarrow> SnapshotMeta \<Rightarrow> bool" where
  "newerMeta a b \<longleftrightarrow>
     (if tEqual (sm_CreatedAt a) (sm_CreatedAt b) then sm_ID a > sm_ID b
      else sm_CreatedAt a > sm_CreatedAt b)"

definition byID :: "SnapshotMeta list \<Rightarrow> (string, SnapshotMeta) gomap" where
  "byID metadata = fold (\<lambda>meta m. mput m (sm_ID meta) meta) metadata mempty"

definition zeroMeta :: SnapshotMeta where
  "zeroMeta = \<lparr>sm_ID = [], sm_BaseID = [], sm_CreatedAt = zeroTime\<rparr>"

text \<open>One turn of the loop over the keys; a key that is not in the map when its turn comes is not visited.\<close>

definition retain_one ::
  "(string, SnapshotMeta) gomap \<Rightarrow> string \<Rightarrow> (string, unit) gomap \<times> bool \<Rightarrow> (string, unit) gomap \<times> bool" where
  "retain_one ms i acc =
     (if mget (fst acc) i = None then acc
      else fold (\<lambda>dependency (retained, changed).
             if mget retained dependency = None then (mput retained dependency (), True) else (retained, changed))
           (meta_Dependencies (mgetd zeroMeta ms i)) acc)"

definition retain_pass ::
  "((string, unit) gomap \<Rightarrow> string list) \<Rightarrow> (string, SnapshotMeta) gomap \<Rightarrow> (string, unit) gomap
   \<Rightarrow> (string, unit) gomap \<times> bool" where
  "retain_pass visit ms retained = fold (retain_one ms) (visit retained) (retained, False)"

text \<open>What a turn does to the set of kept ids.\<close>

lemma retain_one_cases:
  "retain_one ms i (r, ch) =
     (if mget r i \<noteq> None \<and> sm_BaseID (mgetd zeroMeta ms i) \<noteq> [] \<and> mget r (sm_BaseID (mgetd zeroMeta ms i)) = None
      then (mput r (sm_BaseID (mgetd zeroMeta ms i)) (), True) else (r, ch))"
  by (auto simp: retain_one_def meta_Dependencies_def)

definition bases :: "(string, SnapshotMeta) gomap \<Rightarrow> string set" where
  "bases ms = sm_BaseID ` set (mvals ms)"

lemma finite_bases [simp]: "finite (bases ms)"
  unfolding bases_def by (rule finite_imageI) (rule finite_set)

lemma bases_mem: "sm_BaseID (mgetd zeroMeta ms i) \<noteq> [] \<Longrightarrow> sm_BaseID (mgetd zeroMeta ms i) \<in> bases ms"
  by (cases "mget ms i") (auto simp: bases_def zeroMeta_def ran_def)

lemma retain_fold_grows:
  "fold (retain_one ms) ks (r, ch) = (r', ch') \<Longrightarrow>
     dom (mget r) \<subseteq> dom (mget r') \<and> dom (mget r') \<subseteq> dom (mget r) \<union> bases ms
     \<and> (ch' \<longleftrightarrow> ch \<or> dom (mget r') \<noteq> dom (mget r))"
proof (induction ks arbitrary: r ch)
  case (Cons i ks)
  let ?b = "sm_BaseID (mgetd zeroMeta ms i)"
  show ?case
  proof (cases "mget r i \<noteq> None \<and> ?b \<noteq> [] \<and> mget r ?b = None")
    case True
    have d: "dom (mget (mput r ?b ())) = insert ?b (dom (mget r))" by (auto simp: gomap_simps split: if_splits)
    have "?b \<notin> dom (mget r)" "?b \<in> bases ms" using True bases_mem by auto
    moreover have "fold (retain_one ms) ks (mput r ?b (), True) = (r', ch')"
      using Cons.prems True by (simp add: retain_one_cases)
    note Cons.IH [OF this]
    ultimately show ?thesis unfolding d by auto
  next
    case False
    then have "fold (retain_one ms) ks (r, ch) = (r', ch')" using Cons.prems by (auto simp: retain_one_cases)
    then show ?thesis by (rule Cons.IH)
  qed
qed simp

function retain_loop ::
  "((string, unit) gomap \<Rightarrow> string list) \<Rightarrow> (string, SnapshotMeta) gomap \<Rightarrow> (string, unit) gomap
   \<Rightarrow> (string, unit) gomap" where
  "retain_loop visit ms retained =
     (case retain_pass visit ms retained of
        (retained', changed) \<Rightarrow> if changed then retain_loop visit ms retained' else retained')"
  by pat_completeness auto

text \<open>A pass that changes something adds one of the finitely many bases.\<close>

termination
proof (relation "measure (\<lambda>(_, ms, r). card (bases ms - dom (mget r)))")
  fix visit :: "(string, unit) gomap \<Rightarrow> string list" and ms r r' ch
  assume "(r', ch) = retain_pass visit ms r" and "ch"
  then have g: "dom (mget r) \<subseteq> dom (mget r')" "dom (mget r') \<subseteq> dom (mget r) \<union> bases ms" "dom (mget r') \<noteq> dom (mget r)"
    using retain_fold_grows [of ms "visit r" r False r' ch] by (auto simp: retain_pass_def)
  then have "bases ms - dom (mget r') \<subset> bases ms - dom (mget r)" by blast
  then show "((visit, ms, r'), (visit, ms, r)) \<in> measure (\<lambda>(_, ms, r). card (bases ms - dom (mget r)))"
    by (auto intro!: psubset_card_mono)
qed simp

declare retain_loop.simps [simp del]

definition RetainedIDs ::
  "((string, unit) gomap \<Rightarrow> string list) \<Rightarrow> SnapshotMeta list \<Rightarrow> int \<Rightarrow> (string, unit) gomap" where
  "RetainedIDs visit metadata keepNewest =
     (let keep = (if keepNewest < 0 then 0 else keepNewest);
          ordered = sort_by newerMeta metadata;
          retained = fold (\<lambda>meta m. mput m (sm_ID meta) ()) (take (nat keep) ordered) mempty
      in retain_loop visit (byID metadata) retained)"

definition store_ApplyRetention ::
  "((string, unit) gomap \<Rightarrow> string list) \<Rightarrow> (string \<times> rsSnapshot) list \<Rightarrow> int \<Rightarrow> MemoryStore
   \<Rightarrow> MemoryStore \<times> string list" where
  "store_ApplyRetention visit it keepNewest store =
     (let metadata = store_List it;
          retained = RetainedIDs visit metadata keepNewest;
          drop_ids = filter (\<lambda>i. mget retained i = None) (map sm_ID metadata)
      in (fold store_Delete drop_ids store, sort drop_ids))"

section \<open>Reversal\<close>

lemma length_reverse_loop [simp]: "length (reverse_loop l r xs) = length xs"
proof (induction l r xs rule: reverse_loop.induct)
  case (1 l r xs)
  then show ?case by (subst reverse_loop.simps) simp
qed

lemma nth_reverse_loop:
  "\<lbrakk> 0 \<le> l; r < int (length xs); i < length xs \<rbrakk> \<Longrightarrow>
     reverse_loop l r xs ! i = (if l \<le> int i \<and> int i \<le> r then xs ! nat (l + r - int i) else xs ! i)"
proof (induction l r xs rule: reverse_loop.induct)
  case (1 l r xs)
  show ?case
  proof (cases "l < r")
    case True
    let ?ys = "xs[nat l := xs ! nat r, nat r := xs ! nat l]"
    have ys: "?ys ! j = (if int j = r then xs ! nat l else if int j = l then xs ! nat r else xs ! j)" if "j < length xs" for j
      using that 1(2,3) True by (auto simp: nth_list_update)
    have "reverse_loop l r xs ! i = reverse_loop (l + 1) (r - 1) ?ys ! i"
      using True by (subst reverse_loop.simps) simp
    also have "\<dots> = (if l + 1 \<le> int i \<and> int i \<le> r - 1 then ?ys ! nat (l + 1 + (r - 1) - int i) else ?ys ! i)"
      using 1(2-4) True by (intro 1(1)) simp_all
    also have "\<dots> = (if l \<le> int i \<and> int i \<le> r then xs ! nat (l + r - int i) else xs ! i)"
      using 1(2-4) True by (auto simp: ys)
    finally show ?thesis .
  next
    case False
    then have "nat (l + r - int i) = i" if "l \<le> int i" "int i \<le> r" using that by simp
    with False show ?thesis by (subst reverse_loop.simps) simp
  qed
qed

lemma reverse_loop_rev: "reverse_loop 0 (int (length xs) - 1) xs = rev xs"
  by (rule nth_equalityI) (auto simp: nth_reverse_loop rev_nth intro!: arg_cong [of _ _ "(!) xs"])

section \<open>Paths of bases\<close>

definition base_step :: "MemoryStore \<Rightarrow> string \<Rightarrow> string \<Rightarrow> bool" where
  "base_step st a b \<longleftrightarrow> a \<noteq> [] \<and> (\<exists>sn. store_Get a st = Some sn \<and> b = sm_BaseID (rs_Meta sn))"

text \<open>A snapshot, its base, the base of that, up to one without a base.\<close>

fun linked :: "MemoryStore \<Rightarrow> string \<Rightarrow> rsSnapshot list \<Rightarrow> bool" where
  "linked st cur [] \<longleftrightarrow> cur = []"
| "linked st cur (sn # sns) \<longleftrightarrow> cur \<noteq> [] \<and> store_Get cur st = Some sn \<and> linked st (sm_BaseID (rs_Meta sn)) sns"

abbreviation missing :: "MemoryStore \<Rightarrow> string \<Rightarrow> bool" where
  "missing st m \<equiv> m \<noteq> [] \<and> store_Get m st = None"

lemma base_step_det: "\<lbrakk> base_step st a b; base_step st a c \<rbrakk> \<Longrightarrow> b = c"
  by (auto simp: base_step_def)

lemma base_step_meet:
  "\<lbrakk> (base_step st)\<^sup>*\<^sup>* a b; (base_step st)\<^sup>*\<^sup>* a c \<rbrakk> \<Longrightarrow> (base_step st)\<^sup>*\<^sup>* b c \<or> (base_step st)\<^sup>*\<^sup>* c b"
proof (induction rule: rtranclp_induct)
  case (step y z)
  then consider "(base_step st)\<^sup>*\<^sup>* y c" | "(base_step st)\<^sup>*\<^sup>* c y" by blast
  then show ?case
  proof cases
    case 1
    then show ?thesis
    proof (cases rule: converse_rtranclpE)
      case base
      then show ?thesis using step.hyps by auto
    next
      case (step w)
      then show ?thesis using base_step_det [OF \<open>base_step st y z\<close>] by auto
    qed
  next
    case 2
    then show ?thesis using step.hyps(2) by (meson rtranclp.rtrancl_into_rtrancl)
  qed
qed simp

lemma cycle_closed:
  assumes "(base_step st)\<^sup>*\<^sup>* c x" and "(base_step st)\<^sup>+\<^sup>+ c c"
  shows "(base_step st)\<^sup>+\<^sup>+ x c"
  using assms(1)
proof (induction rule: rtranclp_induct)
  case (step y z)
  obtain w where w: "base_step st y w" "(base_step st)\<^sup>*\<^sup>* w c" using step.IH by (auto dest: tranclpD)
  then have "(base_step st)\<^sup>*\<^sup>* z c" using base_step_det step.hyps(2) by metis
  then show ?case using assms(2) by (rule rtranclp_tranclp_tranclp)
qed (rule assms(2))

lemma linked_end:
  "linked st a xs \<Longrightarrow> (base_step st)\<^sup>*\<^sup>* a []"
proof (induction st a xs rule: linked.induct)
  case (2 st cur sn sns)
  then have "base_step st cur (sm_BaseID (rs_Meta sn))" by (simp add: base_step_def)
  with 2 show ?case by auto
qed simp

text \<open>A path has one end: without a base, missing, or going round.\<close>

lemma terminal_unique:
  assumes "(base_step st)\<^sup>*\<^sup>* a x" "(base_step st)\<^sup>*\<^sup>* a y" "\<And>z. \<not> base_step st x z" "\<And>z. \<not> base_step st y z"
  shows "x = y"
  using base_step_meet [OF assms(1,2)] assms(3,4) by (metis converse_rtranclpE)

lemma terminal_no_cycle:
  assumes "(base_step st)\<^sup>*\<^sup>* a x" "\<And>z. \<not> base_step st x z" "(base_step st)\<^sup>*\<^sup>* a c" "(base_step st)\<^sup>+\<^sup>+ c c"
  shows False
proof -
  have "(base_step st)\<^sup>*\<^sup>* c x" using base_step_meet [OF assms(1,3)] assms(2) by (metis converse_rtranclpE rtranclp.rtrancl_refl)
  from cycle_closed [OF this assms(4)] show False using assms(2) by (auto dest: tranclpD)
qed

lemma no_base_step: "\<not> base_step st [] z" "missing st m \<Longrightarrow> \<not> base_step st m z"
  by (simp_all add: base_step_def)

lemma linked_unique: "\<lbrakk> linked st a xs; linked st a ys \<rbrakk> \<Longrightarrow> xs = ys"
proof (induction xs arbitrary: a ys)
  case Nil
  then show ?case by (cases ys) simp_all
next
  case (Cons x xs)
  then show ?case by (cases ys) auto
qed

lemma linked_member:
  "\<lbrakk> linked st a xs; sn \<in> set xs \<rbrakk> \<Longrightarrow> \<exists>i. (base_step st)\<^sup>*\<^sup>* a i \<and> i \<noteq> [] \<and> store_Get i st = Some sn"
proof (induction st a xs rule: linked.induct)
  case (2 st cur x xs)
  then show ?case
    by (cases "sn = x") (auto simp: base_step_def intro: converse_rtranclp_into_rtranclp)
qed simp

section \<open>Resolving a chain\<close>

lemma chain_loop_spec:
  assumes "\<forall>v \<in> dom (mget visited). (base_step st)\<^sup>+\<^sup>+ v cur"
  shows "case chain_loop st visited chain cur of
      Inr c \<Rightarrow> \<exists>xs. c = chain @ xs \<and> linked st cur xs
    | Inl e \<Rightarrow> e = Wrapf ErrInvalidManifest ''dependency cycle'' \<and> (\<exists>c. (base_step st)\<^sup>*\<^sup>* cur c \<and> (base_step st)\<^sup>+\<^sup>+ c c)
        \<or> (\<exists>m. e = Wrapf ErrSnapshotNotFound m \<and> (base_step st)\<^sup>*\<^sup>* cur m \<and> missing st m)"
  using assms
proof (induction st visited chain cur rule: chain_loop.induct)
  case (1 st visited chain cur)
  consider "cur = []" | "cur \<noteq> []" "mget visited cur \<noteq> None" | "cur \<noteq> []" "mget visited cur = None" "store_Get cur st = None"
    | sn where "cur \<noteq> []" "mget visited cur = None" "store_Get cur st = Some sn" by fastforce
  then show ?case
  proof cases
    case 4
    let ?b = "sm_BaseID (rs_Meta sn)"
    have s: "base_step st cur ?b" using 4 by (simp add: base_step_def)
    have "\<forall>v \<in> dom (mget (mput visited cur ())). (base_step st)\<^sup>+\<^sup>+ v ?b"
    proof
      fix v
      assume "v \<in> dom (mget (mput visited cur ()))"
      then have "(base_step st)\<^sup>*\<^sup>* v cur" using 1(2) by (auto simp: gomap_simps dest: tranclp_into_rtranclp split: if_splits)
      then show "(base_step st)\<^sup>+\<^sup>+ v ?b" using s by (rule rtranclp_into_tranclp1)
    qed
    from 1(1) [OF 4(1) _ 4(3) this] 4(2)
    have ih: "case chain_loop st (mput visited cur ()) (chain @ [sn]) ?b of
      Inr c \<Rightarrow> \<exists>xs. c = (chain @ [sn]) @ xs \<and> linked st ?b xs
    | Inl e \<Rightarrow> e = Wrapf ErrInvalidManifest ''dependency cycle'' \<and> (\<exists>c. (base_step st)\<^sup>*\<^sup>* ?b c \<and> (base_step st)\<^sup>+\<^sup>+ c c)
        \<or> (\<exists>m. e = Wrapf ErrSnapshotNotFound m \<and> (base_step st)\<^sup>*\<^sup>* ?b m \<and> missing st m)" by simp
    have eq: "chain_loop st visited chain cur = chain_loop st (mput visited cur ()) (chain @ [sn]) ?b"
      using 4 by (simp add: chain_loop.simps [of st visited])
    show ?thesis
      unfolding eq using ih converse_rtranclp_into_rtranclp [of "base_step st", OF s] 4
      by (auto split: sum.splits intro: exI [of _ "sn # _"])
  qed (use 1(2) in \<open>auto simp: chain_loop.simps\<close>)
qed

lemmas resolve_ends = no_base_step terminal_unique terminal_no_cycle linked_end

lemma resolve_chain_ends:
  "(ResolveChain st i = Inr xs \<longleftrightarrow> linked st i (rev xs))
   \<and> (ResolveChain st i = Inl (Wrapf ErrSnapshotNotFound m) \<longleftrightarrow> (base_step st)\<^sup>*\<^sup>* i m \<and> missing st m)
   \<and> (ResolveChain st i = Inl (Wrapf ErrInvalidManifest ''dependency cycle'') \<longleftrightarrow>
        (\<exists>c. (base_step st)\<^sup>*\<^sup>* i c \<and> (base_step st)\<^sup>+\<^sup>+ c c))"
proof -
  have "\<forall>v \<in> dom (mget (mempty :: (string, unit) gomap)). (base_step st)\<^sup>+\<^sup>+ v i" by auto
  note spec = chain_loop_spec [OF this, of "[]", simplified]
  have lm: False if "linked st i ys" "(base_step st)\<^sup>*\<^sup>* i m'" "missing st m'" for ys m'
    using terminal_unique [OF linked_end [OF that(1)] that(2)] no_base_step that(3) by blast
  have lc: False if "linked st i ys" "(base_step st)\<^sup>*\<^sup>* i c" "(base_step st)\<^sup>+\<^sup>+ c c" for ys c
    using terminal_no_cycle [OF linked_end [OF that(1)] _ that(2,3)] no_base_step by blast
  have mc: False if "(base_step st)\<^sup>*\<^sup>* i m'" "missing st m'" "(base_step st)\<^sup>*\<^sup>* i c" "(base_step st)\<^sup>+\<^sup>+ c c" for m' c
    using terminal_no_cycle [OF that(1) _ that(3,4)] no_base_step that(2) by blast
  have mm: "m' = m''" if "(base_step st)\<^sup>*\<^sup>* i m'" "missing st m'" "(base_step st)\<^sup>*\<^sup>* i m''" "missing st m''" for m' m''
    using terminal_unique [OF that(1,3)] no_base_step that(2,4) by blast
  show ?thesis
  proof (cases "chain_loop st mempty [] i")
    case (Inr c)
    then have L: "linked st i c" and r: "ResolveChain st i = Inr (rev c)"
      using spec by (simp_all add: ResolveChain_def reverse_loop_rev)
    have "rev c = xs \<longleftrightarrow> linked st i (rev xs)" using L linked_unique [OF L, of "rev xs"] by auto
    moreover have "\<not> ((base_step st)\<^sup>*\<^sup>* i m \<and> missing st m)" using lm [OF L] by blast
    moreover have "\<not> (\<exists>c. (base_step st)\<^sup>*\<^sup>* i c \<and> (base_step st)\<^sup>+\<^sup>+ c c)" using lc [OF L] by blast
    ultimately show ?thesis unfolding r by simp
  next
    case (Inl e)
    then have r: "ResolveChain st i = Inl e" by (simp add: ResolveChain_def)
    from Inl spec consider c where "e = Wrapf ErrInvalidManifest ''dependency cycle''" "(base_step st)\<^sup>*\<^sup>* i c" "(base_step st)\<^sup>+\<^sup>+ c c"
      | m' where "e = Wrapf ErrSnapshotNotFound m'" "(base_step st)\<^sup>*\<^sup>* i m'" "missing st m'" by auto
    then show ?thesis
    proof cases
      case 1
      then have "\<not> linked st i (rev xs)" "\<not> ((base_step st)\<^sup>*\<^sup>* i m \<and> missing st m)" using lc mc by blast+
      with 1 show ?thesis unfolding r by auto
    next
      case 2
      then have "\<not> linked st i (rev xs)" "\<not> (\<exists>c. (base_step st)\<^sup>*\<^sup>* i c \<and> (base_step st)\<^sup>+\<^sup>+ c c)"
        "m' = m \<longleftrightarrow> (base_step st)\<^sup>*\<^sup>* i m \<and> missing st m" using lm mc mm by blast+
      with 2 show ?thesis unfolding r by simp
    qed
  qed
qed

text \<open>
  C10: \<open>ResolveChain\<close> always returns, on every store. It returns exactly the snapshot with its
  bases, from the one without a base to the snapshot asked for. It reports that a snapshot was not
  found exactly when following the bases arrives at an id that is not in the store, and names this
  id; it reports a cycle exactly when following the bases
  never ends. There is no other outcome.
\<close>

theorem snap_resolve_chain_spec:
  "(ResolveChain st i = Inr xs \<longleftrightarrow> linked st i (rev xs))
   \<and> (ResolveChain st i = Inl (Wrapf ErrSnapshotNotFound m) \<longleftrightarrow> (base_step st)\<^sup>*\<^sup>* i m \<and> missing st m)
   \<and> (ResolveChain st i = Inl (Wrapf ErrInvalidManifest ''dependency cycle'') \<longleftrightarrow>
        (\<exists>c. (base_step st)\<^sup>*\<^sup>* i c \<and> (base_step st)\<^sup>+\<^sup>+ c c))
   \<and> ((\<exists>ys. linked st i ys) \<or> (\<exists>m. (base_step st)\<^sup>*\<^sup>* i m \<and> missing st m)
        \<or> (\<exists>c. (base_step st)\<^sup>*\<^sup>* i c \<and> (base_step st)\<^sup>+\<^sup>+ c c))"
proof -
  have "\<forall>v \<in> dom (mget (mempty :: (string, unit) gomap)). (base_step st)\<^sup>+\<^sup>+ v i" by auto
  note spec = chain_loop_spec [OF this, of "[]", simplified]
  have "(\<exists>ys. linked st i ys) \<or> (\<exists>m. (base_step st)\<^sup>*\<^sup>* i m \<and> missing st m)
        \<or> (\<exists>c. (base_step st)\<^sup>*\<^sup>* i c \<and> (base_step st)\<^sup>+\<^sup>+ c c)"
    using spec by (cases "chain_loop st mempty [] i") auto
  with resolve_chain_ends show ?thesis by blast
qed

lemma chain_loop_cong:
  assumes "\<And>x. \<lbrakk> (base_step st)\<^sup>*\<^sup>* cur x; x \<noteq> [] \<rbrakk> \<Longrightarrow> store_Get x st' = store_Get x st"
  shows "chain_loop st' visited chain cur = chain_loop st visited chain cur"
  using assms
proof (induction st visited chain cur rule: chain_loop.induct)
  case (1 st visited chain cur)
  have g: "store_Get cur st' = store_Get cur st" if "cur \<noteq> []" by (rule 1(2)) (use that in simp_all)
  have "chain_loop st' (mput visited cur ()) (chain @ [sn]) (sm_BaseID (rs_Meta sn))
      = chain_loop st (mput visited cur ()) (chain @ [sn]) (sm_BaseID (rs_Meta sn))"
    if "cur \<noteq> []" "mget visited cur = None" "store_Get cur st = Some sn" for sn
  proof (rule 1(1))
    fix x
    assume x: "(base_step st)\<^sup>*\<^sup>* (sm_BaseID (rs_Meta sn)) x" "x \<noteq> []"
    have "base_step st cur (sm_BaseID (rs_Meta sn))" using that by (simp add: base_step_def)
    then show "store_Get x st' = store_Get x st"
      by (rule 1(2) [OF converse_rtranclp_into_rtranclp [of "base_step st"]]) (rule x)+
  qed (use that in simp_all)
  then show ?case
    using g by (auto simp add: chain_loop.simps [of st visited chain cur] chain_loop.simps [of st' visited chain cur]
        split: option.split) (metis option.exhaust unit.exhaust)
qed

section \<open>What retention keeps\<close>

definition dep :: "(string, SnapshotMeta) gomap \<Rightarrow> string \<Rightarrow> string \<Rightarrow> bool" where
  "dep ms y x \<longleftrightarrow> x = sm_BaseID (mgetd zeroMeta ms y) \<and> x \<noteq> []"

definition needed :: "(string, SnapshotMeta) gomap \<Rightarrow> string set \<Rightarrow> string set" where
  "needed ms A = {x. \<exists>y \<in> A. (dep ms)\<^sup>*\<^sup>* y x}"

lemma retain_fold_within:
  assumes "\<And>y x. \<lbrakk> y \<in> S; dep ms y x \<rbrakk> \<Longrightarrow> x \<in> S"
  shows "dom (mget r) \<subseteq> S \<Longrightarrow> dom (mget (fst (fold (retain_one ms) ks (r, ch)))) \<subseteq> S"
proof (induction ks arbitrary: r ch)
  case (Cons i ks)
  let ?b = "sm_BaseID (mgetd zeroMeta ms i)"
  have "dom (mget (mput r ?b ())) \<subseteq> S" if "mget r i \<noteq> None" "?b \<noteq> []"
  proof -
    have "i \<in> S" using that(1) Cons.prems by blast
    then have "?b \<in> S" using assms that(2) by (simp add: dep_def)
    with Cons.prems show ?thesis by (auto simp: gomap_simps split: if_splits)
  qed
  with Cons show ?case by (simp add: retain_one_cases)
qed simp

lemma retain_fold_stable:
  "fold (retain_one ms) ks (r, False) = (r', False) \<Longrightarrow>
     r' = r \<and> (\<forall>i \<in> set ks. \<forall>x. i \<in> dom (mget r) \<and> dep ms i x \<longrightarrow> x \<in> dom (mget r))"
proof (induction ks arbitrary: r)
  case (Cons i ks)
  let ?b = "sm_BaseID (mgetd zeroMeta ms i)"
  show ?case
  proof (cases "mget r i \<noteq> None \<and> ?b \<noteq> [] \<and> mget r ?b = None")
    case True
    then have "fold (retain_one ms) ks (mput r ?b (), True) = (r', False)"
      using Cons.prems by (simp add: retain_one_cases)
    then show ?thesis using retain_fold_grows by blast
  next
    case False
    then have "fold (retain_one ms) ks (r, False) = (r', False)" using Cons.prems by (auto simp: retain_one_cases)
    from Cons.IH [OF this] False show ?thesis by (auto simp: dep_def)
  qed
qed simp

text \<open>The keys that a pass visits contain those that were there when it began.\<close>

definition visits_all :: "((string, unit) gomap \<Rightarrow> string list) \<Rightarrow> bool" where
  "visits_all visit \<longleftrightarrow> (\<forall>r. dom (mget r) \<subseteq> set (visit r))"

lemma needed_trans: "A \<subseteq> needed ms B \<Longrightarrow> needed ms A \<subseteq> needed ms B"
proof
  fix x
  assume "A \<subseteq> needed ms B" and "x \<in> needed ms A"
  then obtain y b where "(dep ms)\<^sup>*\<^sup>* y x" "b \<in> B" "(dep ms)\<^sup>*\<^sup>* b y" unfolding needed_def by blast
  then have "(dep ms)\<^sup>*\<^sup>* b x" by (metis rtranclp_trans)
  with \<open>b \<in> B\<close> show "x \<in> needed ms B" unfolding needed_def by blast
qed

lemma retain_loop_needed:
  assumes "visits_all visit"
  shows "dom (mget (retain_loop visit ms r)) = needed ms (dom (mget r))"
  using assms
proof (induction visit ms r rule: retain_loop.induct)
  case (1 visit ms r)
  obtain r' ch where p: "retain_pass visit ms r = (r', ch)" by fastforce
  have closed: "x \<in> needed ms A" if "y \<in> needed ms A" "dep ms y x" for x y A
    using that unfolding needed_def by (auto intro: rtranclp.rtrancl_into_rtrancl)
  have mono: "dom (mget r) \<subseteq> dom (mget r')"
    using retain_fold_grows p unfolding retain_pass_def by blast
  have base: "dom (mget r) \<subseteq> needed ms (dom (mget r))" unfolding needed_def by blast
  have within: "dom (mget r') \<subseteq> needed ms (dom (mget r))"
    using retain_fold_within [where ms = ms and ks = "visit r" and ch = False, OF _ base] closed p
    by (simp add: retain_pass_def)
  have same: "needed ms (dom (mget r')) = needed ms (dom (mget r))"
  proof
    show "needed ms (dom (mget r)) \<subseteq> needed ms (dom (mget r'))" using mono unfolding needed_def by blast
    show "needed ms (dom (mget r')) \<subseteq> needed ms (dom (mget r))" using within by (rule needed_trans)
  qed
  show ?case
  proof (cases ch)
    case True
    with 1 p same show ?thesis by (simp add: retain_loop.simps [of visit ms r])
  next
    case False
    have "fold (retain_one ms) (visit r) (r, False) = (r', False)" using p False by (simp add: retain_pass_def)
    from retain_fold_stable [OF this] 1(2)
    have st: "r' = r" "\<And>i x. \<lbrakk> i \<in> dom (mget r); dep ms i x \<rbrakk> \<Longrightarrow> x \<in> dom (mget r)"
      unfolding visits_all_def by blast+
    have "x \<in> dom (mget r)" if "(dep ms)\<^sup>*\<^sup>* y x" "y \<in> dom (mget r)" for x y
      using that(1)
    proof (induction rule: rtranclp_induct)
      case (step u v)
      show ?case by (rule st(2) [OF step.IH step.hyps(2)])
    qed (rule that(2))
    then have "needed ms (dom (mget r)) \<subseteq> dom (mget r)" unfolding needed_def by blast
    with base False p st(1) show ?thesis by (simp add: retain_loop.simps [of visit ms r])
  qed
qed

definition store_keyed :: "MemoryStore \<Rightarrow> bool" where
  "store_keyed st \<longleftrightarrow> (\<forall>i sn. mget (ms_snapshots st) i = Some sn \<longrightarrow> sm_ID (rs_Meta sn) = i)"

lemma store_keyed_ops:
  "store_keyed NewMemoryStore" "store_keyed st \<Longrightarrow> store_keyed (store_Save sn st)"
  "store_keyed st \<Longrightarrow> store_keyed (store_Delete i st)"
  by (auto simp: store_keyed_def NewMemoryStore_def store_Save_def store_Delete_def gomap_simps split: if_splits)

lemma store_Get_Delete: "store_Get i (store_Delete j st) = (if i = j then None else store_Get i st)"
  by (simp add: store_Get_def store_Delete_def)

lemma store_Get_Deletes: "store_Get i (fold store_Delete js st) = (if i \<in> set js then None else store_Get i st)"
  by (induction js arbitrary: st) (auto simp: store_Get_Delete)

lemma mget_byID:
  "distinct (map sm_ID metas) \<Longrightarrow> mget (byID metas) i = Some m \<longleftrightarrow> m \<in> set metas \<and> sm_ID m = i"
proof (induction metas arbitrary: m rule: rev_induct)
  case (snoc x xs)
  have "sm_ID m \<noteq> sm_ID x" if "m \<in> set xs" for m using snoc.prems that by (metis distinct_append distinct_singleton disjoint_iff
        image_eqI list.set_intros(1) list.simps(9) map_append set_map)
  with snoc show ?case by (auto simp: byID_def gomap_simps)
qed (simp add: byID_def)

lemma store_List_facts:
  assumes "ranges it (ms_snapshots st)" and "store_keyed st"
  shows "m \<in> set (store_List it) \<longleftrightarrow> (\<exists>sn. store_Get (sm_ID m) st = Some sn \<and> rs_Meta sn = m)"
    and "distinct (map sm_ID (store_List it))"
proof -
  have mem: "(k, sn) \<in> set it \<longleftrightarrow> store_Get k st = Some sn" for k sn
    using ranges_mem [OF assms(1)] by (simp add: store_Get_def option.map_ident)
  have key: "store_Get k st = Some sn \<Longrightarrow> sm_ID (rs_Meta sn) = k" for k sn
    using assms(2) by (auto simp: store_keyed_def store_Get_def)
  have "m \<in> set (store_List it) \<longleftrightarrow> (\<exists>k sn. (k, sn) \<in> set it \<and> rs_Meta sn = m)"
    unfolding store_List_def set_sort_by set_map by force
  then show "m \<in> set (store_List it) \<longleftrightarrow> (\<exists>sn. store_Get (sm_ID m) st = Some sn \<and> rs_Meta sn = m)"
    unfolding mem using key by blast
  have "map (sm_ID \<circ> rs_Meta \<circ> snd) it = map fst it" using mem key by auto
  then have "distinct (map sm_ID (map (rs_Meta \<circ> snd) it))"
    using ranges_distinct [OF assms(1)] unfolding map_map comp_assoc by metis
  moreover have "mset (map sm_ID (store_List it)) = mset (map sm_ID (map (rs_Meta \<circ> snd) it))"
    unfolding store_List_def mset_map [of sm_ID] mset_sort_by by (rule refl)
  ultimately show "distinct (map sm_ID (store_List it))" by (metis mset_eq_imp_distinct_iff)
qed

lemma store_List_ids:
  assumes "ranges it (ms_snapshots st)" and "store_keyed st"
  shows "set (map sm_ID (store_List it)) = {i. store_Get i st \<noteq> None}"
proof (intro set_eqI iffI)
  fix i
  assume "i \<in> set (map sm_ID (store_List it))"
  then show "i \<in> {i. store_Get i st \<noteq> None}" using store_List_facts(1) [OF assms] by auto
next
  fix i
  assume "i \<in> {i. store_Get i st \<noteq> None}"
  then obtain sn where sn: "store_Get i st = Some sn" by auto
  then have "sm_ID (rs_Meta sn) = i" using assms(2) by (auto simp: store_keyed_def store_Get_def)
  with sn have "rs_Meta sn \<in> set (store_List it)" using store_List_facts(1) [OF assms] by simp
  with \<open>sm_ID (rs_Meta sn) = i\<close> show "i \<in> set (map sm_ID (store_List it))" by force
qed

lemma dep_base_step:
  assumes "ranges it (ms_snapshots st)" and "store_keyed st" and "base_step st y x" and "x \<noteq> []"
  shows "dep (byID (store_List it)) y x"
proof -
  obtain sn where sn: "store_Get y st = Some sn" "x = sm_BaseID (rs_Meta sn)" using assms(3) by (auto simp: base_step_def)
  then have "sm_ID (rs_Meta sn) = y" using assms(2) by (auto simp: store_keyed_def store_Get_def)
  then have "mget (byID (store_List it)) y = Some (rs_Meta sn)"
    using store_List_facts [OF assms(1,2)] sn by (simp add: mget_byID)
  with sn assms(4) show ?thesis by (simp add: dep_def)
qed

lemma needed_closed:
  assumes "ranges it (ms_snapshots st)" and "store_keyed st" and "(base_step st)\<^sup>*\<^sup>* i x"
    and "i \<in> needed (byID (store_List it)) A"
  shows "x = [] \<or> x \<in> needed (byID (store_List it)) A"
  using assms(3)
proof (induction rule: rtranclp_induct)
  case (step y z)
  have "y \<noteq> []" using step.hyps(2) by (simp add: base_step_def)
  with step.IH obtain a where "a \<in> A" "(dep (byID (store_List it)))\<^sup>*\<^sup>* a y" by (auto simp: needed_def)
  with dep_base_step [OF assms(1,2) step.hyps(2)] show ?case
    by (auto simp: needed_def intro: rtranclp.rtrancl_into_rtrancl)
qed (simp add: assms(4))

lemma fold_put_ids: "dom (mget (fold (\<lambda>meta m. mput m (sm_ID meta) ()) ms m0)) = sm_ID ` set ms \<union> dom (mget m0)"
proof (induction ms arbitrary: m0)
  case (Cons x ms)
  have "dom (mget (mput m0 (sm_ID x) ())) = insert (sm_ID x) (dom (mget m0))" by (auto simp: gomap_simps split: if_splits)
  then show ?case by (simp add: Cons)
qed simp

lemma newerMeta_order: "newerMeta a b \<Longrightarrow> \<not> newerMeta b a" "\<lbrakk> \<not> newerMeta b a; \<not> newerMeta c b \<rbrakk> \<Longrightarrow> \<not> newerMeta c a"
  "\<lbrakk> \<not> newerMeta b a; sm_ID a \<noteq> sm_ID b \<rbrakk> \<Longrightarrow> newerMeta a b"
  by (auto simp: newerMeta_def tEqual_def less_time_def split: if_splits)

lemma RetainedIDs_needed:
  assumes "visits_all visit"
  shows "dom (mget (RetainedIDs visit metadata k)) =
    needed (byID metadata) (sm_ID ` set (take (nat k) (sort_by newerMeta metadata)))"
proof -
  have "nat (if k < 0 then 0 else k) = nat k" by simp
  then show ?thesis
    unfolding RetainedIDs_def Let_def by (simp add: retain_loop_needed [OF assms] fold_put_ids)
qed

text \<open>
  C9: retention keeps every chain it leaves the head of. For any order of the maps, and whichever of
  the keys added on the way a pass visits, \<open>ApplyRetention\<close> keeps exactly the snapshots that the
  newest \<open>k\<close> need: these, their bases, the bases of those, and so on; each of the newest \<open>k\<close> is
  newer than each other one. It returns the ids of the rest, once each and in order. For what is
  kept, \<open>ResolveChain\<close> gives afterwards what it gave before.
\<close>

theorem snap_retention_keeps_chains:
  assumes "ranges it (ms_snapshots st)" and "store_keyed st" and "visits_all visit"
    and "store_ApplyRetention visit it k st = (st', removed)"
    and "newest = take (nat k) (sort_by newerMeta (store_List it))"
    and "kept = needed (byID (store_List it)) (sm_ID ` set newest)"
  shows "(\<forall>m \<in> set newest. \<forall>m' \<in> set (store_List it) - set newest. newerMeta m m')
    \<and> (\<forall>i. store_Get i st' = (if i \<in> kept then store_Get i st else None))
    \<and> set removed = {i. store_Get i st \<noteq> None \<and> i \<notin> kept} \<and> sorted_wrt (<) removed
    \<and> (\<forall>i \<in> kept. ResolveChain st' i = ResolveChain st i)"
proof (intro conjI ballI)
  let ?ms = "store_List it" and ?srt = "sort_by newerMeta (store_List it)"
  let ?ids = "filter (\<lambda>i. mget (RetainedIDs visit ?ms k) i = None) (map sm_ID ?ms)"
  note facts = store_List_facts [OF assms(1,2)]
  note ids = store_List_ids [OF assms(1,2)]
  have kept: "mget (RetainedIDs visit ?ms k) i = None \<longleftrightarrow> i \<notin> kept" for i
    using RetainedIDs_needed [OF assms(3), of ?ms k] assms(5,6) by blast
  have st': "st' = fold store_Delete ?ids st" and rm: "removed = sort ?ids"
    using assms(4) by (simp_all add: store_ApplyRetention_def Let_def)
  have get: "store_Get i st' = (if i \<in> kept then store_Get i st else None)" for i
    using ids by (auto simp: st' store_Get_Deletes kept)
  then show "\<forall>i. store_Get i st' = (if i \<in> kept then store_Get i st else None)" by blast
  show "set removed = {i. store_Get i st \<noteq> None \<and> i \<notin> kept}" using ids by (auto simp: rm kept)
  show "sorted_wrt (<) removed" using facts(2) by (simp add: rm strict_sorted_iff)
  show "newerMeta m m'" if "m \<in> set newest" "m' \<in> set ?ms - set newest" for m m'
  proof -
    have "m' \<in> set (drop (nat k) ?srt)" using that(2) assms(5) by (metis DiffE UnE append_take_drop_id set_append set_sort_by)
    moreover have "sorted_wrt (\<lambda>a b. \<not> newerMeta b a) (take (nat k) ?srt @ drop (nat k) ?srt)"
      unfolding append_take_drop_id by (rule sorted_sort_by) (use newerMeta_order in blast)+
    ultimately have "\<not> newerMeta m' m" using that(1) assms(5) by (auto simp: sorted_wrt_append simp del: append_take_drop_id)
    moreover have "m \<in> set ?ms" using that(1) assms(5) by (metis in_set_takeD set_sort_by)
    then have "sm_ID m \<noteq> sm_ID m'" using facts(2) that by (auto simp: distinct_map inj_on_def)
    ultimately show ?thesis by (rule newerMeta_order(3))
  qed
  show "ResolveChain st' i = ResolveChain st i" if "i \<in> kept" for i
  proof -
    have "chain_loop st' mempty [] i = chain_loop st mempty [] i"
    proof (rule chain_loop_cong)
      fix x
      assume "(base_step st)\<^sup>*\<^sup>* i x" and "x \<noteq> []"
      then have "x \<in> kept" using needed_closed [OF assms(1,2)] that assms(6) by blast
      then show "store_Get x st' = store_Get x st" by (simp add: get)
    qed
    then show ?thesis by (simp add: ResolveChain_def)
  qed
qed

lemma visits_all_mkeys: "visits_all mkeys"
  by (simp add: visits_all_def)

definition rsSample :: "string \<Rightarrow> string \<Rightarrow> int \<Rightarrow> rsSnapshot" where
  "rsSample i base t = \<lparr>rs_Meta = \<lparr>sm_ID = i, sm_BaseID = base, sm_CreatedAt = Time t UTC\<rparr>,
     rs_Manifest = \<lparr>mf_SnapshotID = i, mf_Chunks = [], mf_MerkleRoot = []\<rparr>, rs_Chunks = []\<rparr>"

text \<open>Of \<open>a\<close>, an unrelated \<open>x\<close>, and \<open>b\<close> on the base \<open>a\<close>, the newest is \<open>b\<close>: only \<open>x\<close> goes.\<close>

definition rsStore :: MemoryStore where
  "rsStore = fold store_Save [rsSample ''a'' [] 1, rsSample ''x'' [] 2, rsSample ''b'' ''a'' 3] NewMemoryStore"

lemma rsStore_eval:
  "entries (ms_snapshots rsStore) =
     [(''a'', rsSample ''a'' [] 1), (''x'', rsSample ''x'' [] 2), (''b'', rsSample ''b'' ''a'' 3)]"
  "sort_by newerMeta (store_List (entries (ms_snapshots rsStore))) =
     map rs_Meta [rsSample ''b'' ''a'' 3, rsSample ''x'' [] 2, rsSample ''a'' [] 1]"
  by (simp_all add: rsStore_def NewMemoryStore_def store_Save_def rsSample_def entries_mput store_List_def
      newerMeta_def olderMeta_def tEqual_def less_time_def)

lemma snap_retention_witness:
  "\<exists>st' removed. store_ApplyRetention mkeys (entries (ms_snapshots rsStore)) 1 rsStore = (st', removed)
     \<and> ResolveChain st' ''b'' = ResolveChain rsStore ''b''"
proof -
  let ?it = "entries (ms_snapshots rsStore)"
  obtain st' removed where r: "store_ApplyRetention mkeys ?it 1 rsStore = (st', removed)" by fastforce
  let ?newest = "take (nat 1) (sort_by newerMeta (store_List ?it))"
  have "''b'' \<in> needed (byID (store_List ?it)) (sm_ID ` set ?newest)"
    unfolding needed_def rsStore_eval(2) by (auto simp: rsSample_def)
  moreover have "store_keyed rsStore" unfolding rsStore_def by (simp add: store_keyed_ops)
  ultimately show ?thesis
    using snap_retention_keeps_chains [OF ranges_entries _ visits_all_mkeys r refl refl] r by blast
qed

end
