(* ===== verification/SnapService.thy ===== *)
theory SnapService
  imports SnapStore
begin

text \<open>
  Package \<open>replsnap\<close>, quorums (\<open>quorum.go\<close>), availability (\<open>availability.go\<close>), the choice of the
  snapshot to restore (\<open>planner.go\<close>) and the service (\<open>service.go\<close>). Counts of copies are numbers of
  slice elements and cannot overflow.
\<close>

section \<open>Data\<close>

record ReplicationPolicy =
  rp_ReplicaCount :: int

record PromotionReceipt =
  pr_SnapshotID :: string
  pr_AckCount :: int
  pr_Required :: int
  pr_Promoted :: bool

record ReplicaInventory =
  ri_ReplicaID :: string
  ri_SnapshotIDs :: "string list"

record RecoveryPolicy =
  rc_MinimumCopies :: int

definition policy_Eligible :: "int \<Rightarrow> RecoveryPolicy \<Rightarrow> bool" where
  "policy_Eligible copies policy =
     (let minimum = (if rc_MinimumCopies policy < 1 then 1 else rc_MinimumCopies policy) in copies \<ge> minimum)"

record rsRestorePlan =
  rpl_SnapshotID :: string
  rpl_Copies :: int
  rpl_Chain :: "string list"

section \<open>Quorums\<close>

definition strictMajority :: "int \<Rightarrow> int" where
  "strictMajority replicaCount = (if replicaCount < 1 then 1 else replicaCount div 2 + 1)"

definition policy_RequiredAcks :: "ReplicationPolicy \<Rightarrow> int" where
  "policy_RequiredAcks policy = strictMajority (rp_ReplicaCount policy)"

record QuorumTracker =
  qt_required :: int
  qt_acks :: "(string, unit) gomap"

definition NewQuorumTracker :: "int \<Rightarrow> QuorumTracker" where
  "NewQuorumTracker replicaCount = \<lparr>qt_required = strictMajority replicaCount, qt_acks = mempty\<rparr>"

definition tracker_Acknowledge :: "string \<Rightarrow> QuorumTracker \<Rightarrow> QuorumTracker" where
  "tracker_Acknowledge replicaID tracker =
     (if replicaID = [] then tracker else tracker\<lparr>qt_acks := mput (qt_acks tracker) replicaID ()\<rparr>)"

definition tracker_Status :: "QuorumTracker \<Rightarrow> int \<times> int \<times> bool" where
  "tracker_Status tracker =
     (int (mlen (qt_acks tracker)), qt_required tracker, int (mlen (qt_acks tracker)) \<ge> qt_required tracker)"

definition HasQuorum :: "string list \<Rightarrow> int \<Rightarrow> bool" where
  "HasQuorum replicaIDs replicaCount =
     (let tracker = fold tracker_Acknowledge replicaIDs (NewQuorumTracker replicaCount);
          (_, _, reached) = tracker_Status tracker
      in reached)"

section \<open>Availability\<close>

definition count_inventory :: "ReplicaInventory \<Rightarrow> (string, int) gomap \<Rightarrow> (string, int) gomap" where
  "count_inventory inventory counts =
     snd (fold (\<lambda>snapshotID (seen, counts).
            if snapshotID = [] then (seen, counts)
            else if mget seen snapshotID \<noteq> None then (seen, counts)
            else (mput seen snapshotID (), mput counts snapshotID (mgetd 0 counts snapshotID + 1)))
          (ri_SnapshotIDs inventory) (mempty :: (string, unit) gomap, counts))"

definition CountAvailability :: "ReplicaInventory list \<Rightarrow> (string, int) gomap" where
  "CountAvailability inventories = fold count_inventory inventories mempty"

text \<open>\<open>it\<close> is the order in which the counts are visited.\<close>

definition AvailableSnapshots :: "(string \<times> int) list \<Rightarrow> RecoveryPolicy \<Rightarrow> (string, int) gomap" where
  "AvailableSnapshots it policy =
     fold (\<lambda>(snapshotID, copies) result. if policy_Eligible copies policy then mput result snapshotID copies else result)
       it mempty"

definition HasReplicaMajority :: "int \<Rightarrow> int \<Rightarrow> bool" where
  "HasReplicaMajority copies replicaCount \<longleftrightarrow> copies \<ge> strictMajority replicaCount"

section \<open>The choice of a snapshot\<close>

definition ChooseLatestAvailable ::
  "SnapshotMeta list \<Rightarrow> (string, int) gomap \<Rightarrow> RecoveryPolicy \<Rightarrow> (SnapshotMeta \<times> int) result" where
  "ChooseLatestAvailable metadata copies policy =
     (let candidates = filter (\<lambda>meta. policy_Eligible (mgetd 0 copies (sm_ID meta)) policy) metadata
      in if length candidates = 0 then Inl ErrNoRecoveryPoint
         else let selected = hd (sort_by newerMeta candidates) in Inr (selected, mgetd 0 copies (sm_ID selected)))"

section \<open>The service\<close>

record rsService =
  rsv_store :: MemoryStore

definition NewService :: "MemoryStore \<Rightarrow> rsService" where
  "NewService store = \<lparr>rsv_store = store\<rparr>"

definition rs_Capture ::
  "error option \<Rightarrow> SnapshotMeta \<Rightarrow> 'r reader \<Rightarrow> 'r \<Rightarrow> int \<Rightarrow> rsService \<Rightarrow> (rsService \<times> rsSnapshot result) option" where
  "rs_Capture ctxErr meta read r blockSize service =
     (case ctxErr of
        Some e \<Rightarrow> Some (service, Inl e)
      | None \<Rightarrow>
          if sm_ID meta = [] then Some (service, Inl (Wrapf ErrInvalidManifest ''missing snapshot id''))
          else (case ReadFrames read r blockSize of
              None \<Rightarrow> None
            | Some (Inl e) \<Rightarrow> Some (service, Inl e)
            | Some (Inr frames) \<Rightarrow> Some (
                case BuildManifest (sm_ID meta) frames of
                  Inl e \<Rightarrow> (service, Inl e)
                | Inr (manifest, chunks) \<Rightarrow>
                    (case VerifyManifest manifest chunks of
                       Some e \<Rightarrow> (service, Inl e)
                     | None \<Rightarrow>
                         let snapshot = \<lparr>rs_Meta = meta, rs_Manifest = manifest, rs_Chunks = chunks\<rparr>
                         in (service\<lparr>rsv_store := store_Save snapshot (rsv_store service)\<rparr>,
                             Inr (rsClone snapshot))))))"

definition uniqueCount :: "string list \<Rightarrow> int" where
  "uniqueCount values =
     int (mlen (fold (\<lambda>val seen. if val \<noteq> [] then mput seen val () else seen) values (mempty :: (string, unit) gomap)))"

definition zeroReceipt :: PromotionReceipt where
  "zeroReceipt = \<lparr>pr_SnapshotID = [], pr_AckCount = 0, pr_Required = 0, pr_Promoted = False\<rparr>"

text \<open>The receipt is returned with the error too.\<close>

definition rs_Promote :: "string \<Rightarrow> int \<Rightarrow> string list \<Rightarrow> rsService \<Rightarrow> PromotionReceipt \<times> error option" where
  "rs_Promote snapshotID replicaCount acknowledgements service =
     (case store_Get snapshotID (rsv_store service) of
        None \<Rightarrow> (zeroReceipt, Some ErrSnapshotNotFound)
      | Some _ \<Rightarrow>
          let policy = \<lparr>rp_ReplicaCount = replicaCount\<rparr>;
              receipt = \<lparr>pr_SnapshotID = snapshotID, pr_AckCount = uniqueCount acknowledgements,
                pr_Required = policy_RequiredAcks policy, pr_Promoted = False\<rparr>
          in if \<not> HasQuorum acknowledgements replicaCount then (receipt, Some ErrQuorumNotReached)
             else (receipt\<lparr>pr_Promoted := True\<rparr>, None))"

definition rs_PlanRestore ::
  "(string \<times> rsSnapshot) list \<Rightarrow> ReplicaInventory list \<Rightarrow> RecoveryPolicy \<Rightarrow> rsService \<Rightarrow> rsRestorePlan result" where
  "rs_PlanRestore it inventories policy service =
     (let availability = CountAvailability inventories in
      case ChooseLatestAvailable (store_List it) availability policy of
        Inl e \<Rightarrow> Inl e
      | Inr (selected, copies) \<Rightarrow>
          (case ResolveChain (rsv_store service) (sm_ID selected) of
             Inl e \<Rightarrow> Inl e
           | Inr chain \<Rightarrow>
               Inr \<lparr>rpl_SnapshotID = sm_ID selected, rpl_Copies = copies,
                 rpl_Chain = map (sm_ID \<circ> rs_Meta) chain\<rparr>))"

definition rs_Prune ::
  "((string, unit) gomap \<Rightarrow> string list) \<Rightarrow> (string \<times> rsSnapshot) list \<Rightarrow> int \<Rightarrow> rsService \<Rightarrow> rsService \<times> string list" where
  "rs_Prune visit it keepNewest service =
     (let (store, removed) = store_ApplyRetention visit it keepNewest (rsv_store service)
      in (service\<lparr>rsv_store := store\<rparr>, removed))"

section \<open>Overlapping quorums\<close>

lemma fold_Acknowledge:
  "qt_required (fold tracker_Acknowledge ids t) = qt_required t
   \<and> dom (mget (qt_acks (fold tracker_Acknowledge ids t))) = dom (mget (qt_acks t)) \<union> (set ids - {[]})"
  by (induction ids arbitrary: t) (auto simp: tracker_Acknowledge_def gomap_simps split: if_splits)

abbreviation voters :: "string list \<Rightarrow> string set" where
  "voters ids \<equiv> set ids - {[]}"

lemma HasQuorum_iff: "HasQuorum ids n \<longleftrightarrow> strictMajority n \<le> int (card (voters ids))"
  using fold_Acknowledge [of ids "NewQuorumTracker n"]
  by (simp add: HasQuorum_def tracker_Status_def NewQuorumTracker_def mlen_card)

lemma uniqueCount_card: "uniqueCount ids = int (card (voters ids))"
proof -
  have "dom (mget (fold (\<lambda>val seen. if val \<noteq> [] then mput seen val () else seen) ids m)) = dom (mget m) \<union> voters ids"
    for m :: "(string, unit) gomap"
    by (induction ids arbitrary: m) (auto simp: gomap_simps split: if_splits)
  then show ?thesis by (simp add: uniqueCount_def mlen_card)
qed

text \<open>The promise of a quorum system: a quorum among \<open>n\<close> members has more than half of them.\<close>

locale quorum_system =
  fixes is_quorum :: "'q \<Rightarrow> int \<Rightarrow> bool"
    and members :: "'q \<Rightarrow> 'a set"
  assumes finite_members: "finite (members q)"
    and majority: "is_quorum q n \<Longrightarrow> n < 2 * int (card (members q))"
begin

lemma quorums_meet:
  assumes "finite R" "int (card R) = n" "members q \<subseteq> R" "members q' \<subseteq> R" "is_quorum q n" "is_quorum q' n"
  shows "members q \<inter> members q' \<noteq> {}"
proof
  assume "members q \<inter> members q' = {}"
  then have "card (members q \<union> members q') = card (members q) + card (members q')"
    by (rule card_Un_disjoint [OF finite_members finite_members])
  moreover have "card (members q \<union> members q') \<le> card R" using assms(1,3,4) by (intro card_mono) auto
  ultimately show False using majority [OF assms(5)] majority [OF assms(6)] assms(2) by linarith
qed

end

interpretation acks: quorum_system HasQuorum voters
proof
  show "n < 2 * int (card (voters ids))" if "HasQuorum ids n" for ids n
    using that by (auto simp: HasQuorum_iff strictMajority_def split: if_splits)
qed simp

text \<open>
  C18: \<open>Promote\<close> promotes a stored snapshot exactly when the distinct acknowledgements that are not
  empty are a strict majority of the replica count; the receipt gives their number and the number
  required, and says it is promoted exactly then. Two promotions that were acknowledged by replicas
  of one set of this size have a replica in common.
\<close>

theorem snap_promotions_overlap:
  assumes "finite R" and "int (card R) = n" and "voters acks \<subseteq> R" and "voters acks' \<subseteq> R"
    and "rs_Promote i n acks svc = (r, None)" and "rs_Promote j n acks' svc' = (r', None)"
  shows "pr_Promoted r \<and> pr_AckCount r = int (card (voters acks)) \<and> pr_Required r \<le> pr_AckCount r
    \<and> store_Get i (rsv_store svc) \<noteq> None
    \<and> (\<exists>replica \<in> R. replica \<in> set acks \<and> replica \<in> set acks')
    \<and> (\<forall>k m bs. store_Get k (rsv_store svc) \<noteq> None \<longrightarrow>
        (if strictMajority m \<le> int (card (voters bs)) then snd (rs_Promote k m bs svc) = None
         else snd (rs_Promote k m bs svc) = Some ErrQuorumNotReached \<and> \<not> pr_Promoted (fst (rs_Promote k m bs svc))))"
proof -
  have q: "HasQuorum acks n" "HasQuorum acks' n" "store_Get i (rsv_store svc) \<noteq> None"
    "r = \<lparr>pr_SnapshotID = i, pr_AckCount = uniqueCount acks, pr_Required = strictMajority n, pr_Promoted = True\<rparr>"
    using assms(5,6) by (auto simp: rs_Promote_def policy_RequiredAcks_def Let_def split: option.splits if_splits)
  have "voters acks \<inter> voters acks' \<noteq> {}" by (rule acks.quorums_meet [OF assms(1-4) q(1,2)])
  with q assms(3) show ?thesis
    by (auto simp: uniqueCount_card HasQuorum_iff rs_Promote_def Let_def split: option.splits)
qed

lemma rsStore_Get:
  "store_Get ''a'' rsStore = Some (rsSample ''a'' [] 1)" "store_Get ''b'' rsStore = Some (rsSample ''b'' ''a'' 3)"
  by (simp_all add: store_Get_def rsStore_def store_Save_def NewMemoryStore_def rsSample_def gomap_simps)

lemma snap_promotions_overlap_witness:
  "\<exists>r r'. rs_Promote ''a'' 3 [''p'', ''q''] (NewService rsStore) = (r, None)
     \<and> rs_Promote ''b'' 3 [''q'', ''s''] (NewService rsStore) = (r', None)
     \<and> (\<exists>replica \<in> {''p'', ''q'', ''s''}. replica \<in> set [''p'', ''q''] \<and> replica \<in> set [''q'', ''s''])"
proof -
  have "HasQuorum [''p'', ''q''] 3" "HasQuorum [''q'', ''s''] 3" by (simp_all add: HasQuorum_iff strictMajority_def)
  then obtain r r' where "rs_Promote ''a'' 3 [''p'', ''q''] (NewService rsStore) = (r, None)"
    "rs_Promote ''b'' 3 [''q'', ''s''] (NewService rsStore) = (r', None)"
    by (simp add: rs_Promote_def NewService_def rsStore_Get Let_def)
  with snap_promotions_overlap [of "{''p'', ''q'', ''s''}" 3 "[''p'', ''q'']" "[''q'', ''s'']" "''a''" "NewService rsStore" r
      "''b''" "NewService rsStore" r']
  show ?thesis by simp
qed

section \<open>Capture and restore\<close>

lemma RestoreBytes_concat: "RestoreBytes chain = concat (map (concat \<circ> rs_Chunks) chain)"
proof -
  have inner: "fold (\<lambda>chunk result. result @ chunk) cs acc = acc @ concat cs" for cs and acc :: bytes
    by (induction cs arbitrary: acc) simp_all
  have "fold (\<lambda>sn result. fold (\<lambda>chunk result. result @ chunk) (rs_Chunks sn) result) chain acc
      = acc @ concat (map (concat \<circ> rs_Chunks) chain)" for acc
    by (induction chain arbitrary: acc) (simp_all add: inner)
  then show ?thesis by (simp add: RestoreBytes_def)
qed

lemma store_Get_Save: "store_Get i (store_Save sn st) = (if i = sm_ID (rs_Meta sn) then Some sn else store_Get i st)"
  by (simp add: store_Get_def store_Save_def gomap_simps)

lemma linked_Save:
  "\<lbrakk> linked st a ys; store_keyed st; sm_ID (rs_Meta sn) \<notin> (sm_ID \<circ> rs_Meta) ` set ys \<rbrakk> \<Longrightarrow> linked (store_Save sn st) a ys"
proof (induction st a ys rule: linked.induct)
  case (2 st cur y ys)
  then have "sm_ID (rs_Meta y) = cur" by (auto simp: store_keyed_def store_Get_def)
  with 2 show ?case by (auto simp: store_Get_Save)
qed simp

text \<open>
  C4: what was captured is restored. For every reader that delivers at least one piece and then the
  end, \<open>Capture\<close> ends and stores a snapshot whose chunks are the pieces, with a manifest that
  verifies; and when the chain of its base resolved, the snapshot's chain is that chain and the
  snapshot, and restoring it gives the bytes of the base's chain followed by the bytes read. The
  snapshot must not replace one of that chain.
\<close>

theorem snap_capture_restores:
  assumes "store_keyed (rsv_store svc)" and "sm_ID meta \<noteq> []" and "1 \<le> n" and "delivers read n r bs" and "bs \<noteq> []"
    and "ResolveChain (rsv_store svc) (sm_BaseID meta) = Inr xs" and "sm_ID meta \<notin> (sm_ID \<circ> rs_Meta) ` set xs"
  shows "\<exists>svc' sn. rs_Capture None meta read r n svc = Some (svc', Inr sn)
    \<and> rs_Meta sn = meta \<and> rs_Chunks sn = bs \<and> VerifyManifest (rs_Manifest sn) bs = None
    \<and> store_Get (sm_ID meta) (rsv_store svc') = Some sn \<and> store_keyed (rsv_store svc')
    \<and> ResolveChain (rsv_store svc') (sm_ID meta) = Inr (xs @ [sn])
    \<and> RestoreBytes (xs @ [sn]) = RestoreBytes xs @ concat bs"
proof -
  obtain fs where fs: "ReadFrames read r n = Some (Inr fs)" "map fr_Data fs = bs"
    using read_loop_delivers [OF assms(4), of "[]"] assms(3) by (auto simp: ReadFrames_def)
  have "\<forall>f \<in> set fs. fr_Data f \<noteq> []" using delivers_nonempty [OF assms(4)] fs(2) by auto
  with fs(2) assms(2,5) obtain m where m: "BuildManifest (sm_ID meta) fs = Inr (m, bs)"
    by (auto simp: BuildManifest_Inr)
  have v: "VerifyManifest m bs = None" by (rule BuildManifest_verifies [OF m])
  let ?sn = "\<lparr>rs_Meta = meta, rs_Manifest = m, rs_Chunks = bs\<rparr>"
  let ?svc = "svc\<lparr>rsv_store := store_Save ?sn (rsv_store svc)\<rparr>"
  have c: "rs_Capture None meta read r n svc = Some (?svc, Inr ?sn)"
    using assms(2) fs(1) m v by (simp add: rs_Capture_def Let_def)
  have "linked (rsv_store svc) (sm_BaseID meta) (rev xs)" using assms(6) by (simp add: resolve_chain_ends)
  then have "linked (rsv_store ?svc) (sm_BaseID meta) (rev xs)"
    using linked_Save [of _ _ _ ?sn] assms(1,7) by simp
  then have "ResolveChain (rsv_store ?svc) (sm_ID meta) = Inr (xs @ [?sn])"
    using assms(2) by (simp add: resolve_chain_ends store_Get_Save)
  with c v assms(1) show ?thesis
    by (intro exI [of _ ?svc] exI [of _ ?sn]) (simp add: store_Get_Save store_keyed_ops RestoreBytes_concat)
qed

lemma snap_capture_restores_witness:
  "\<exists>svc' sn. rs_Capture None \<lparr>sm_ID = ''s'', sm_BaseID = [], sm_CreatedAt = zeroTime\<rparr> bytesReader [1, 2, 3] 2
       (NewService NewMemoryStore) = Some (svc', Inr sn)
     \<and> RestoreBytes [sn] = [1, 2, 3]"
proof -
  let ?meta = "\<lparr>sm_ID = ''s'', sm_BaseID = [], sm_CreatedAt = zeroTime\<rparr>"
  have "delivers bytesReader 2 [1, 2, 3] (blocks (nat 2) [1, 2, 3])" by (rule delivers_bytesReader) simp
  moreover have "blocks (nat 2) [1, 2, 3] \<noteq> ([] :: bytes list)" by (subst blocks.simps) simp
  moreover have "concat (blocks (nat 2) [1, 2, 3]) = ([1, 2, 3] :: bytes)" by (simp add: concat_blocks)
  moreover have "ResolveChain (rsv_store (NewService NewMemoryStore)) (sm_BaseID ?meta) = Inr []"
    by (simp add: resolve_chain_ends)
  ultimately show ?thesis
    using snap_capture_restores [of "NewService NewMemoryStore" ?meta 2 bytesReader "[1, 2, 3]" "blocks (nat 2) [1, 2, 3]" "[]"]
    by (auto simp: NewService_def store_keyed_ops RestoreBytes_def)
qed

section \<open>Planning a restore\<close>

text \<open>The number of inventories that list a snapshot.\<close>

definition holders :: "ReplicaInventory list \<Rightarrow> string \<Rightarrow> int" where
  "holders inventories i =
     (if i = [] then 0 else int (length (filter (\<lambda>inventory. i \<in> set (ri_SnapshotIDs inventory)) inventories)))"

lemma count_inventory_spec:
  "mgetd 0 (count_inventory inventory counts) i = mgetd 0 counts i + (if i \<noteq> [] \<and> i \<in> set (ri_SnapshotIDs inventory) then 1 else 0)"
proof -
  let ?f = "\<lambda>snapshotID (seen, counts).
            if snapshotID = [] then (seen, counts)
            else if mget seen snapshotID \<noteq> None then (seen, counts)
            else (mput seen snapshotID (), mput counts snapshotID (mgetd 0 counts snapshotID + 1))"
  have "mgetd 0 (snd (fold ?f ids (seen, counts))) i =
      mgetd 0 counts i + (if i \<noteq> [] \<and> i \<in> set ids \<and> mget seen i = None then 1 else (0 :: int))"
    for ids and seen :: "(string, unit) gomap" and counts
    by (induction ids arbitrary: seen counts) (auto simp: gomap_simps)
  then show ?thesis by (simp add: count_inventory_def)
qed

lemma CountAvailability_holders: "mgetd 0 (CountAvailability inventories) i = holders inventories i"
proof -
  have "mgetd 0 (fold count_inventory invs counts) i = mgetd 0 counts i + holders invs i" for invs counts
    by (induction invs arbitrary: counts) (auto simp: holders_def count_inventory_spec)
  then show ?thesis by (simp add: CountAvailability_def)
qed

lemma ChooseLatest_spec:
  "case ChooseLatestAvailable metas copies pol of
     Inl e \<Rightarrow> e = ErrNoRecoveryPoint \<and> (\<forall>m \<in> set metas. \<not> policy_Eligible (mgetd 0 copies (sm_ID m)) pol)
   | Inr (sel, c) \<Rightarrow> sel \<in> set metas \<and> c = mgetd 0 copies (sm_ID sel) \<and> policy_Eligible c pol
       \<and> (\<forall>m \<in> set metas. policy_Eligible (mgetd 0 copies (sm_ID m)) pol \<longrightarrow> \<not> newerMeta m sel)"
proof -
  let ?cs = "filter (\<lambda>m. policy_Eligible (mgetd 0 copies (sm_ID m)) pol) metas"
  show ?thesis
  proof (cases "?cs = []")
    case True
    then show ?thesis by (auto simp: ChooseLatestAvailable_def filter_empty_conv)
  next
    case False
    then obtain sel rest where srt: "sort_by newerMeta ?cs = sel # rest"
      by (metis length_0_conv length_sort_by neq_Nil_conv)
    have "sorted_wrt (\<lambda>a b. \<not> newerMeta b a) (sel # rest)"
      unfolding srt [symmetric] by (rule sorted_sort_by) (use newerMeta_order in blast)+
    then have "\<forall>m \<in> set (sel # rest). \<not> newerMeta m sel" using newerMeta_order(1) [of sel sel] by auto
    moreover have "set (sel # rest) = set ?cs" unfolding srt [symmetric] by simp
    ultimately have "sel \<in> set ?cs" "\<forall>m \<in> set ?cs. \<not> newerMeta m sel" by (metis list.set_intros(1), metis)
    with False srt show ?thesis by (simp add: ChooseLatestAvailable_def Let_def)
  qed
qed

lemma AvailableSnapshots_spec:
  assumes "ranges it (CountAvailability inventories)"
  shows "mget (AvailableSnapshots it pol) i = Some c \<longleftrightarrow>
    mget (CountAvailability inventories) i = Some c \<and> policy_Eligible c pol"
proof -
  have fold_eq: "mget (fold (\<lambda>(j, c) m. if policy_Eligible c pol then mput m j c else m) it m0) i =
      (case map_of it i of None \<Rightarrow> mget m0 i | Some c \<Rightarrow> if policy_Eligible c pol then Some c else mget m0 i)"
    if "distinct (map fst it)" for it and m0 :: "(string, int) gomap"
    using that
  proof (induction it arbitrary: m0)
    case (Cons x it)
    obtain j c' where x: "x = (j, c')" by fastforce
    with Cons.prems have "map_of it j = None" by (simp add: map_of_eq_None_iff)
    with Cons x show ?case by (cases "i = j") (auto simp: gomap_simps split: option.split)
  qed simp
  have "map_of it i = mget (CountAvailability inventories) i"
    using ranges_mem [OF assms] map_of_eq_Some_iff [OF ranges_distinct [OF assms]] by (metis not_Some_eq)
  then show ?thesis
    using fold_eq [OF ranges_distinct [OF assms], of mempty] by (auto simp: AvailableSnapshots_def split: option.splits)
qed

text \<open>A snapshot that enough inventories list, with no newer one of which that is true.\<close>

definition latest_recoverable :: "MemoryStore \<Rightarrow> ReplicaInventory list \<Rightarrow> RecoveryPolicy \<Rightarrow> string \<Rightarrow> bool" where
  "latest_recoverable st invs pol i \<longleftrightarrow>
     (\<exists>sn. store_Get i st = Some sn \<and> policy_Eligible (holders invs i) pol
       \<and> (\<forall>j sn'. store_Get j st = Some sn' \<and> policy_Eligible (holders invs j) pol \<and> j \<noteq> i \<longrightarrow>
            newerMeta (rs_Meta sn) (rs_Meta sn')))"

text \<open>
  C19: \<open>PlanRestore\<close> chooses the newest snapshot of the store that at least the required number of
  inventories list, at least one, and plans its chain: the snapshot with all its bases, the base
  without a base first. There is no recovery point exactly when no snapshot of the store is listed
  often enough. Otherwise it fails with the reason why the chain of the chosen snapshot cannot be
  resolved; it does not fall back to an older one.
\<close>

theorem snap_plan_restore_spec:
  assumes "ranges it (ms_snapshots (rsv_store svc))" and "store_keyed (rsv_store svc)"
  shows "case rs_PlanRestore it invs pol svc of
      Inr plan \<Rightarrow> latest_recoverable (rsv_store svc) invs pol (rpl_SnapshotID plan)
        \<and> rpl_Copies plan = holders invs (rpl_SnapshotID plan)
        \<and> (\<exists>chain. linked (rsv_store svc) (rpl_SnapshotID plan) (rev chain) \<and> rpl_Chain plan = map (sm_ID \<circ> rs_Meta) chain)
    | Inl e \<Rightarrow> e = ErrNoRecoveryPoint \<and> (\<forall>i. store_Get i (rsv_store svc) \<noteq> None \<longrightarrow> \<not> policy_Eligible (holders invs i) pol)
        \<or> (\<exists>i. latest_recoverable (rsv_store svc) invs pol i \<and> ResolveChain (rsv_store svc) i = Inl e)"
proof (cases "ChooseLatestAvailable (store_List it) (CountAvailability invs) pol")
  case (Inl e)
  then have "e = ErrNoRecoveryPoint" "\<forall>m \<in> set (store_List it). \<not> policy_Eligible (holders invs (sm_ID m)) pol"
    using ChooseLatest_spec [of "store_List it" "CountAvailability invs" pol] by (simp_all add: CountAvailability_holders)
  moreover have "i \<in> sm_ID ` set (store_List it)" if "store_Get i (rsv_store svc) \<noteq> None" for i
    using store_List_ids [OF assms] that by auto
  ultimately show ?thesis using Inl by (auto simp: rs_PlanRestore_def)
next
  case (Inr p)
  obtain sel c where p: "p = (sel, c)" by fastforce
  let ?st = "rsv_store svc"
  have sel: "sel \<in> set (store_List it)" "c = holders invs (sm_ID sel)" "policy_Eligible c pol"
    "\<forall>m \<in> set (store_List it). policy_Eligible (holders invs (sm_ID m)) pol \<longrightarrow> \<not> newerMeta m sel"
    using ChooseLatest_spec [of "store_List it" "CountAvailability invs" pol]
    unfolding Inr p sum.case prod.case CountAvailability_holders by blast+
  obtain sn where sn: "store_Get (sm_ID sel) ?st = Some sn" "rs_Meta sn = sel"
    using store_List_facts(1) [OF assms] sel(1) by blast
  have "newerMeta sel (rs_Meta sn')"
    if "store_Get j ?st = Some sn'" "policy_Eligible (holders invs j) pol" "j \<noteq> sm_ID sel" for j sn'
  proof (rule newerMeta_order(3))
    have j: "sm_ID (rs_Meta sn') = j" using assms(2) that(1) by (auto simp: store_keyed_def store_Get_def)
    then show "sm_ID sel \<noteq> sm_ID (rs_Meta sn')" using that(3) by simp
    have "rs_Meta sn' \<in> set (store_List it)" using store_List_facts(1) [OF assms] that(1) j by simp
    with sel(4) that(2) j show "\<not> newerMeta (rs_Meta sn') sel" by auto
  qed
  then have best: "latest_recoverable ?st invs pol (sm_ID sel)"
    using sn sel(2,3) unfolding latest_recoverable_def by auto
  show ?thesis
  proof (cases "ResolveChain ?st (sm_ID sel)")
    case (Inl e)
    with Inr p best show ?thesis by (auto simp: rs_PlanRestore_def)
  next
    case chain: (Inr chain)
    then have "linked ?st (sm_ID sel) (rev chain)" by (simp add: resolve_chain_ends)
    with Inr p best chain sel(2) show ?thesis by (auto simp: rs_PlanRestore_def)
  qed
qed

lemma rsStore_plan:
  "rs_PlanRestore (entries (ms_snapshots rsStore)) [\<lparr>ri_ReplicaID = p, ri_SnapshotIDs = [''b'']\<rparr>]
     \<lparr>rc_MinimumCopies = 1\<rparr> (NewService rsStore)
   = Inr \<lparr>rpl_SnapshotID = ''b'', rpl_Copies = 1, rpl_Chain = [''a'', ''b'']\<rparr>"
proof -
  let ?inv = "[\<lparr>ri_ReplicaID = p, ri_SnapshotIDs = [''b'']\<rparr>]"
  have "linked rsStore ''b'' (rev [rsSample ''a'' [] 1, rsSample ''b'' ''a'' 3])"
    using rsStore_Get by (simp add: rsSample_def)
  then have chain: "ResolveChain rsStore ''b'' = Inr [rsSample ''a'' [] 1, rsSample ''b'' ''a'' 3]"
    by (simp only: resolve_chain_ends)
  have "ChooseLatestAvailable (store_List (entries (ms_snapshots rsStore))) (CountAvailability ?inv) \<lparr>rc_MinimumCopies = 1\<rparr>
      = Inr (rs_Meta (rsSample ''b'' ''a'' 3), 1)"
    unfolding rsStore_eval(1)
    by (simp add: ChooseLatestAvailable_def store_List_def policy_Eligible_def CountAvailability_holders holders_def
        rsSample_def olderMeta_def tEqual_def less_time_def Let_def)
  with chain show ?thesis by (simp add: rs_PlanRestore_def NewService_def rsSample_def)
qed

lemma snap_plan_restore_witness:
  "latest_recoverable rsStore [\<lparr>ri_ReplicaID = ''p'', ri_SnapshotIDs = [''b'']\<rparr>] \<lparr>rc_MinimumCopies = 1\<rparr> ''b''"
proof -
  have "store_keyed (rsv_store (NewService rsStore))" by (simp add: NewService_def rsStore_def store_keyed_ops)
  from snap_plan_restore_spec [where it = "entries (ms_snapshots rsStore)", OF _ this,
      of "[\<lparr>ri_ReplicaID = ''p'', ri_SnapshotIDs = [''b'']\<rparr>]" "\<lparr>rc_MinimumCopies = 1\<rparr>"]
  show ?thesis unfolding rsStore_plan by (simp add: NewService_def)
qed

text \<open>
  What the number of copies does not say. It counts inventories, not replicas: the same
  inventory given several times counts as often. And only the chosen snapshot is looked for, not its
  bases: a plan can contain a base that no inventory lists.
\<close>

theorem snap_plan_gaps:
  "holders (replicate k \<lparr>ri_ReplicaID = p, ri_SnapshotIDs = [''b'']\<rparr>) ''b'' = int k
   \<and> rs_PlanRestore (entries (ms_snapshots rsStore)) [\<lparr>ri_ReplicaID = p, ri_SnapshotIDs = [''b'']\<rparr>]
       \<lparr>rc_MinimumCopies = 1\<rparr> (NewService rsStore)
     = Inr \<lparr>rpl_SnapshotID = ''b'', rpl_Copies = 1, rpl_Chain = [''a'', ''b'']\<rparr>
   \<and> mgetd 0 (CountAvailability [\<lparr>ri_ReplicaID = p, ri_SnapshotIDs = [''b'']\<rparr>]) ''a'' = 0"
  unfolding rsStore_plan by (simp add: CountAvailability_holders holders_def)

end
