(* ===== verification/Spec2Isabelle.thy ===== *)
theory Spec2Isabelle
  imports ServiceInvariant SnapService
begin

text \<open>
  BackupMesh: a model of its Go sources and the theorems about it.

  \<^bold>\<open>The program.\<close> BackupMesh coordinates backups. The packages under \<open>src/internal\<close> keep one kind of
  record each, in memory and behind a mutex: a catalog of snapshots with their chunks, a journal, an
  audit ledger, leases, and so on. The package \<open>service\<close> holds one store of each and runs the
  workflows over them: a \<^emph>\<open>capture\<close> takes a lease, stages chunks, journals and publishes a
  snapshot, and releases the lease; a \<^emph>\<open>verification\<close> digests a published snapshot; a \<^emph>\<open>restore\<close>
  takes a lease and a reference that protects the snapshot from retention, follows the chunks that
  arrived, and gives both back; retention, rollback, replay of the journal, retries, publication of
  manifests, replication to destinations within a byte budget, scheduled jobs, mirror sites, garbage
  collection, migration and quarantine use the same stores. The package \<open>src/replsnap\<close> is the
  older and separate part: replica snapshots in chunks with a Merkle manifest, chains of incremental
  snapshots, retention, quorums and restore planning.

  \<^bold>\<open>Theories and sources.\<close> A definition is named after the Go function it translates, with the
  package in front of methods that several packages have (\<open>lease_Acquire\<close>, \<open>Service_BeginCapture\<close>).
  \<^item> \<open>Prelude\<close>: Go integers, maps, sorting and number formatting, and the collections of lemmas.
    \<open>Contracts\<close>: the locales that packages share. \<open>Gotime\<close>: times with a location. \<open>Sha256\<close>:
    SHA-256 and hexadecimal coding, executable, so that digests are computed and not postulated.
  \<^item> \<open>Model\<close>: \<open>internal/model\<close>, data and errors. \<open>Journal\<close>: \<open>internal/journal/log.go\<close>.
    \<open>AuditLedger\<close>: \<open>internal/audit/ledger.go\<close>. \<open>Leases\<close>: \<open>internal/lease/store.go\<close>.
    \<open>Catalog\<close>: \<open>internal/catalog/store.go\<close>. \<open>Checkpoint\<close>: \<open>internal/checkpoint/store.go\<close>.
    \<open>ManifestStore\<close>: \<open>internal/manifest/store.go\<close>. \<open>RetryQueue\<close>: \<open>internal/retry/queue.go\<close>.
    \<open>RestoreCursor\<close>: \<open>internal/restore/cursor.go\<close>. \<open>Receipts\<close>: \<open>internal/verify/receipts.go\<close>.
    \<open>WatermarkLedger\<close>: \<open>internal/watermark/ledger.go\<close>. \<open>MirrorLedger\<close>: \<open>internal/mirror\<close>.
    \<open>GcStore\<close>: \<open>internal/gc/store.go\<close>. \<open>MigrationStore\<close>: \<open>internal/migration\<close>.
    \<open>QuarantineStore\<close>: \<open>internal/quarantine/store.go\<close>. \<open>PolicyEngine\<close>: \<open>internal/policy/engine.go\<close>.
  \<^item> \<open>TimeWindow\<close> and \<open>Telemetry\<close>: \<open>internal/telemetry\<close>. \<open>ReplBudget\<close>, \<open>ReplPlanner\<close> (registry and
    planner) and \<open>ReplDispatcher\<close> (window and dispatcher): \<open>internal/replication\<close>.
    \<open>Orchestrator\<close>: \<open>internal/orchestrator\<close>.
  \<^item> \<open>ServiceState\<close>: the service's record and the operations of \<open>internal/service/service.go\<close> and
    \<open>service_new.go\<close>. \<open>ServiceFlow\<close>: the workflows of \<open>capture.go\<close>, \<open>verify.go\<close>, \<open>restore.go\<close> and
    \<open>worker.go\<close>. \<open>ServiceCapture\<close>, \<open>ServiceRestore\<close> and \<open>ServiceInvariant\<close>: theorems about them.
  \<^item> \<open>SnapManifest\<close> (model, stream, Merkle tree, manifest, verifier), \<open>SnapStore\<close> (store, chains,
    retention) and \<open>SnapService\<close> (quorum, availability, planner, service): \<open>src/replsnap\<close>.

  \<^bold>\<open>How the code is translated.\<close> A struct is a record and a method a function on it that returns the
  new state first. \<open>(T, error)\<close> is a sum, \<open>error\<close> an option, \<open>(T, bool)\<close> an option. Every early
  return is a branch. A Go map is a finite association list with distinct keys; where a loop ranges
  over a map, the order is an argument that the theorems quantify over, or the result is shown to be
  the same for every order. \<open>sort.Slice\<close> is a sort by the same comparison; where it leaves equal
  elements in any order, the order is an argument too. \<open>uint64\<close> is a 64-bit word; \<open>int\<close> and \<open>int64\<close>
  are integers with their wrap-around written out where sums can leave the range. Times are instants
  with a location, and every reading of a clock in an operation is an argument of its own. A method
  that holds its mutex throughout is one step. Where the code leaves the lock between a check and an
  update, the parts are separate steps: \<open>MirrorLedger\<close> runs any number of calls of \<open>mirror.Apply\<close> in
  every interleaving of their three parts (\<open>world_step\<close>), and \<open>WatermarkLedger\<close> calls of
  \<open>AdvanceWatermark\<close>, whose \<open>watermark.Set\<close> takes no lock (\<open>wm_step\<close>). Elsewhere, and in the
  operations of the service, a call runs to its end before the next one begins (\<open>mirror_Apply\<close> is a
  call that nothing interrupts). The journal and the ledger, which the service, the dispatcher and the
  controller share by pointer, are threaded through the operations that use them.

  \<^bold>\<open>Parameters.\<close> \<open>encoding/json\<close> (marshal, unmarshal), \<open>cmp.Diff\<close> of the vendored \<open>go-cmp\<close>,
  the time zone data, the sender of the retry worker, the reader of a capture, and \<open>ctx.Err()\<close> are
  arguments. Theorems assume nothing of them, except that a codec inverts itself where they say so,
  and that a reader delivers its pieces and then its end.

  \<^bold>\<open>Loops.\<close> They are structural recursions over the list they range over, or functions with a
  measure: the contiguous cursor, the backoff, the levels of a Merkle tree, the chain of bases (the
  snapshots not yet visited), the closure of retained ids (the bases not yet retained) and the
  reversal of a slice all terminate on every input. \<open>ReadFrames\<close> depends on its reader and may not
  end; it is a partial function, and is shown to return for every reader that ends. No loop is bounded
  by fuel.

  \<^bold>\<open>What the theorems show.\<close> Each store has an invariant that every operation keeps, stated
  through the locales: invariants of steps and of runs (\<open>step_invariant\<close>, \<open>invariant_machine\<close>), numbered append-only logs (\<open>append_log\<close>), quantities that never go back
  (\<open>monotone_store\<close>: lease epochs, cancellation marks, cursors, watermarks, mirror generations,
  migration versions, replayed generations), counted references (\<open>ref_counter\<close>), pruned time windows
  (\<open>time_window\<close>), byte quotas (\<open>quota\<close>) and majorities (\<open>quorum_system\<close>). On these rest: fencing and
  exclusion of leases; retention that spares exactly what is restored and the newest; the mirror fence in
  every interleaving, under the condition it needs; a ledger that shows
  tampering; the branches of commits, checkpoints, plans, jobs and retries; the round trip from
  captured to published, and from bytes read to bytes restored; garbage collection and reference
  counts as refinements of their specification; and, below, what every run of the whole service keeps.
  Where an operation does less than its name, its comment or its callers suggest, a theorem says
  exactly what happens: the check \<open>VerifyThrough\<close>, the unguarded \<open>Set\<close> of a watermark, the gaps of
  the mirror fence and of quarantine, the failure rate, the overflow of the budget, the reservation of
  a plan that was made again, \<open>Elapsed\<close>, the time zone of the scheduler, the digest given back twice,
  restores that were taken over, the marks of a failed replay, a migration without its journal entry,
  the Merkle tree of an odd level, and the copies that a restore plan counts.

  \<^bold>\<open>Not modelled.\<close> The demonstration program \<open>cmd/replica-snapshot-demo\<close> and the tests; the
  vendored \<open>go-cmp\<close>, of which only the text of a difference is used; the guards of methods for a
  \<open>nil\<close> receiver; memory sharing through slices, which the code avoids by copying, so that records
  are values here; floating point rates, which are exact fractions here; concurrent calls of
  operations of the service that are not atomic as a whole, other than the two races above.
\<close>

section \<open>Runs of the whole service\<close>

text \<open>
  C3: what every run keeps. Whatever operations of the service are called, with whatever arguments and
  in whatever order, from a new service on: the audit ledger verifies; the journal numbers its
  entries 1, 2, 3, and so on; both only grow at their ends; every snapshot in the catalog carries its
  key as id and has between one and the maximal number of chunks, strictly ordered by index; and no
  operation has more than the maximal number of chunks staged.
\<close>

theorem service_runs_keep:
  assumes "service_run (Service_New n i) s" and "service_run s t"
  shows "Service_VerifyAudit s = None
    \<and> map j_Sequence (Service_JournalEntries s) = map (\<lambda>k. of_nat (Suc k)) [0..<length (Service_JournalEntries s)]
    \<and> (\<exists>es. Service_JournalEntries t = Service_JournalEntries s @ es)
    \<and> (\<exists>es. Service_AuditEvents t = Service_AuditEvents s @ es)
    \<and> (\<forall>j sn. Service_Snapshot j s = Some sn \<longrightarrow> s_ID sn = j \<and> s_Chunks sn \<noteq> []
        \<and> sorted_wrt (<) (map c_Index (s_Chunks sn)) \<and> int (length (s_Chunks sn)) \<le> cat_maxChunkCount (sv_catalog s))
    \<and> (\<forall>op. int (mlen (mgetd mempty (cat_staged (sv_catalog s)) op)) \<le> cat_maxChunkCount (sv_catalog s))"
proof -
  have s: "evolves (Service_New n i) s" and t: "evolves s t" using assms by (auto intro: service_run_evolves)
  obtain as js where a: "sv_audit s = fold audit_step as audit_New" and j: "sv_journal s = fold journal_step js journal_New"
    using s by (auto simp: evolves_def audit_grows_def journal_grows_def Service_New_def)
  have inv: "catalog_inv (sv_catalog s)" using s by (simp add: evolves_def Service_New_def catalog_inv_New)
  have "audit_inv (sv_audit s)" unfolding a by (rule chain.inv_reached)
  moreover have "jlog.numbered (sv_journal s)" unfolding j by (rule jlog.counted.inv_reached)
  moreover have "\<exists>es. Service_JournalEntries t = Service_JournalEntries s @ es"
    using t jlog.prefix_kept
    by (auto simp: evolves_def journal_grows_def Service_JournalEntries_def journal_Entries_def)
  moreover have "\<exists>es. Service_AuditEvents t = Service_AuditEvents s @ es"
    using t alog.prefix_kept by (auto simp: evolves_def audit_grows_def Service_AuditEvents_def audit_Events_def)
  moreover note staged_inv(2) [OF inv]
  ultimately show ?thesis
    using inv
    by (auto simp: audit_inv_def jlog.numbered_def Service_VerifyAudit_def Service_JournalEntries_def journal_Entries_def
        Service_Snapshot_def catalog_inv_def)
qed

lemma service_runs_keep_witness:
  "let s = fst (Service_QuarantineChunk (\<lambda>_. zeroTime) ''d'' ''bad'' (Service_New 4 0)) in
     Service_VerifyAudit s = None
   \<and> (\<exists>es. Service_JournalEntries (fst (Service_Replay [] s)) = Service_JournalEntries s @ es)"
proof -
  let ?s = "fst (Service_QuarantineChunk (\<lambda>_. zeroTime) ''d'' ''bad'' (Service_New 4 0))"
  have "service_run (Service_New 4 0) ?s" by (intro service_run.intros)
  moreover have "service_run ?s (fst (Service_Replay [] ?s))" by (intro service_run.replay service_run.start)
  ultimately show ?thesis unfolding Let_def using service_runs_keep by blast
qed

end
